theory Spec2Isabelle
  imports Main "HOL-Library.Multiset"
begin

section \<open>Data model of res.py\<close>

text \<open>
  The four type tags of res.py (module constants \<^verbatim>\<open>FUNCTION_TYPE\<close>, \<^verbatim>\<open>VARIABLE_TYPE\<close>,
  \<^verbatim>\<open>PREDICATE_TYPE\<close>, \<^verbatim>\<open>CONSTANT_TYPE\<close>).
\<close>

datatype ptype = FUNCTION_TYPE | VARIABLE_TYPE | PREDICATE_TYPE | CONSTANT_TYPE

text \<open>
  Class \<^verbatim>\<open>Predicate\<close>: one class serves for literals, function terms, variables and
  constants. The fields are in the order of \<^verbatim>\<open>__init__(name, negated, terms, type, nameTag)\<close>.
\<close>

datatype Predicate =
  Predicate (name: string) (negated: bool) (terms: "Predicate list") (type: ptype) (nameTag: string)

text \<open>The exceptions the modelled code can raise; \<^verbatim>\<open>exit()\<close> raises SystemExit.\<close>

datatype error = TypeError | IndexError | ValueError | RecursionError | BadParse | SystemExit

text \<open>
  \<^verbatim>\<open>Predicate.__eq__\<close>: name, type and negation flag are compared (the type twice);
  the terms are not.
\<close>

definition Predicate_eq :: "Predicate \<Rightarrow> Predicate \<Rightarrow> bool" where
  "Predicate_eq self other \<longleftrightarrow>
     name self = name other \<and> type self = type other \<and> negated self = negated other
     \<and> type self = type other"

text \<open>
  Python objects have an identity, which \<^verbatim>\<open>resolve\<close> tests with \<^verbatim>\<open>is\<close>. A literal held
  by a clause is modelled as its address paired with its value; a Predicate that sits in
  a clause is never assigned to, so the value at an address does not change.
\<close>

type_synonym addr = nat
type_synonym obj = "addr \<times> Predicate"

text \<open>Class \<^verbatim>\<open>Clause\<close>: a display name and the list of its literals.\<close>

datatype Clause = Clause (clause_name: string) (predicates: "obj list")

text \<open>
  The loop of \<^verbatim>\<open>Clause.__eq__\<close>, \<^verbatim>\<open>for i in range(len(self.predicates) - 1)\<close>: with both
  lists of the same length, it compares the literals at each index but the last one.
\<close>

definition Clause_eq_loop :: "obj list \<Rightarrow> obj list \<Rightarrow> bool" where
  "Clause_eq_loop ps qs \<longleftrightarrow>
     list_all (\<lambda>i. Predicate_eq (snd (ps ! i)) (snd (qs ! i))) [0 ..< length ps - 1]"

definition Clause_eq :: "Clause \<Rightarrow> Clause \<Rightarrow> bool" where
  "Clause_eq self other \<longleftrightarrow>
     (if length (predicates self) = 0 \<and> length (predicates other) = 0
         \<and> clause_name self = clause_name other then True
      else if clause_name self = clause_name other then
        (if length (predicates self) = length (predicates other)
         then Clause_eq_loop (predicates self) (predicates other)
         else False)
      else False)"

section \<open>Substitutions and unification\<close>

text \<open>
  \<^verbatim>\<open>s.index(c)\<close>: the index of the first occurrence, ValueError when there is none.
\<close>

fun str_index :: "string \<Rightarrow> char \<Rightarrow> error + nat" where
  "str_index [] c = Inl ValueError"
| "str_index (x # xs) c =
     (if x = c then Inr 0
      else (case str_index xs c of Inl e \<Rightarrow> Inl e | Inr i \<Rightarrow> Inr (Suc i)))"

text \<open>
  A substitution is a Python dict from variable names to the names of terms (strings on
  both sides: \<^verbatim>\<open>unifications[variable.name] = term2.name\<close>). \<^verbatim>\<open>unify_variable\<close> assigns into
  the dict it is given, so dicts live in a store: a reference is an index into the list
  of all dicts allocated so far. \<^verbatim>\<open>d.copy()\<close> and \<^verbatim>\<open>a | b\<close> allocate a new dict (in
  \<^verbatim>\<open>a | b\<close> the bindings of \<^verbatim>\<open>b\<close> win); \<^verbatim>\<open>d[k] = v\<close> updates in place.
\<close>

type_synonym theta = "string \<rightharpoonup> string"
type_synonym ref = nat
type_synonym store = "theta list"

definition dict_copy :: "ref \<Rightarrow> store \<Rightarrow> ref \<times> store" where
  "dict_copy a h = (length h, h @ [h ! a])"

definition dict_or :: "ref \<Rightarrow> ref \<Rightarrow> store \<Rightarrow> ref \<times> store" where
  "dict_or a b h = (length h, h @ [(h ! a) ++ (h ! b)])"

definition dict_set :: "ref \<Rightarrow> string \<Rightarrow> string \<Rightarrow> store \<Rightarrow> store" where
  "dict_set a k v h = h[a := (h ! a)(k \<mapsto> v)]"

definition has_key :: "theta \<Rightarrow> string \<Rightarrow> bool" where
  "has_key m k \<longleftrightarrow> m k \<noteq> None"

text \<open>
  \<^verbatim>\<open>getFinalForm\<close> follows the bindings of a name until a name without binding, one call
  for each name on the way, with no record of the names seen. The interpreter bounds the
  depth of the call stack (\<^verbatim>\<open>sys.getrecursionlimit()\<close>, 1000 unless a program sets it, and
  res.py does not) and raises RecursionError at the call that would exceed it. The first
  parameter \<open>frames\<close> is the number of nested calls of \<^verbatim>\<open>getFinalForm\<close> the stack still
  has room for when \<^verbatim>\<open>getFinalForm\<close> is called: the limit less the frames of the callers.
  The functions that reach \<^verbatim>\<open>getFinalForm\<close> take \<open>frames\<close> as their first parameter and
  hand it on; their own recursion, over the structure of the terms, is not bounded in the
  model.
\<close>

fun getFinalForm :: "nat \<Rightarrow> string \<Rightarrow> theta \<Rightarrow> error + string" where
  "getFinalForm 0 variableName theta = Inl RecursionError"
| "getFinalForm (Suc frames) variableName theta =
     (case theta variableName of
        None \<Rightarrow> Inr variableName
      | Some translated \<Rightarrow> getFinalForm frames translated theta)"

text \<open>
  \<^verbatim>\<open>Predicate.__copy__\<close> calls \<^verbatim>\<open>Predicate(self.name, self.negated, self.terms.copy(), self.type)\<close>:
  four arguments for the five required parameters of \<^verbatim>\<open>__init__\<close> (\<^verbatim>\<open>nameTag\<close> has no
  default), which Python rejects with TypeError before any object is built.
\<close>

definition Predicate_copy :: "Predicate \<Rightarrow> error + Predicate" where
  "Predicate_copy self = Inl TypeError"

text \<open>The assignment \<^verbatim>\<open>p.name = n\<close>, on the copy.\<close>

definition set_name :: "Predicate \<Rightarrow> string \<Rightarrow> Predicate" where
  "set_name p n = Predicate n (negated p) (terms p) (type p) (nameTag p)"

text \<open>
  \<^verbatim>\<open>unify\<close> and \<^verbatim>\<open>unify_variable\<close>. A result is the raised exception (\<open>Inl\<close>), or the returned
  value: \<open>None\<close> or the reference of a dict; the store is returned beside it. The two
  nested \<^verbatim>\<open>for\<close> iterations of the function branch are \<open>unify_outer\<close> (over \<^verbatim>\<open>t1.terms\<close>) and
  \<open>unify_inner\<close> (over \<^verbatim>\<open>t2.terms\<close>, for one \<^verbatim>\<open>termOuter\<close>); a \<^verbatim>\<open>return None\<close> in
  the iterations leaves \<^verbatim>\<open>unify\<close>. In \<^verbatim>\<open>unify_variable\<close>, \<^verbatim>\<open>unifications | unify(...)\<close> raises
  TypeError when \<^verbatim>\<open>unify\<close> returns \<^verbatim>\<open>None\<close>; an exception of \<^verbatim>\<open>getFinalForm\<close> is not caught.
\<close>

function unify :: "nat \<Rightarrow> Predicate \<Rightarrow> Predicate \<Rightarrow> ref \<Rightarrow> store \<Rightarrow> (error + ref option) \<times> store"
  and unify_variable ::
    "nat \<Rightarrow> Predicate \<Rightarrow> Predicate \<Rightarrow> ref \<Rightarrow> store \<Rightarrow> (error + ref option) \<times> store"
  and unify_outer ::
    "nat \<Rightarrow> Predicate list \<Rightarrow> Predicate list \<Rightarrow> ref \<Rightarrow> store \<Rightarrow> (error + ref option) \<times> store"
  and unify_inner ::
    "nat \<Rightarrow> Predicate \<Rightarrow> Predicate list \<Rightarrow> ref \<Rightarrow> store \<Rightarrow> (error + ref option) \<times> store"
where
  "unify frames t1 t2 oldTheta h0 =
     (let (theta, h) = dict_copy oldTheta h0 in
      if Predicate_eq t1 t2 then (Inr (Some theta), h)
      else if type t1 = VARIABLE_TYPE then
        (case unify_variable frames t1 t2 theta h of
           (Inl e, h') \<Rightarrow> (Inl e, h')
         | (Inr None, h') \<Rightarrow> (Inr None, h')
         | (Inr (Some uni_var_res), h') \<Rightarrow>
             (let (r, h'') = dict_or theta uni_var_res h' in (Inr (Some r), h'')))
      else if type t2 = VARIABLE_TYPE then
        (case unify_variable frames t2 t1 theta h of
           (Inl e, h') \<Rightarrow> (Inl e, h')
         | (Inr None, h') \<Rightarrow> (Inr None, h')
         | (Inr (Some uni_var_res), h') \<Rightarrow>
             (let (r, h'') = dict_or theta uni_var_res h' in (Inr (Some r), h'')))
      else if type t2 = FUNCTION_TYPE \<and> type t1 = FUNCTION_TYPE then
        (case str_index (name t1) CHR ''('' of
           Inl e \<Rightarrow> (Inl e, h)
         | Inr i1 \<Rightarrow>
            (case str_index (name t2) CHR ''('' of
               Inl e \<Rightarrow> (Inl e, h)
             | Inr i2 \<Rightarrow>
                 if take i1 (name t1) \<noteq> take i2 (name t2) then (Inr None, h)
                 else unify_outer frames (terms t1) (terms t2) theta h))
      else (Inr None, h))"
| "unify_variable frames variable term2 theta h =
     (if has_key (h ! theta) (name variable) then
        (case getFinalForm frames (name variable) (h ! theta) of
           Inl e \<Rightarrow> (Inl e, h)
         | Inr linked_var_name \<Rightarrow>
            (case Predicate_copy variable of
               Inl e \<Rightarrow> (Inl e, h)
             | Inr new_var_term \<Rightarrow>
                (case unify frames (set_name new_var_term linked_var_name) term2 theta h of
                   (Inl e, h') \<Rightarrow> (Inl e, h')
                 | (Inr None, h') \<Rightarrow> (Inl TypeError, h')
                 | (Inr (Some r), h') \<Rightarrow>
                     (let (unifications, h'') = dict_or theta r h'
                      in (Inr (Some unifications), h'')))))
      else if has_key (h ! theta) (name term2) then
        (case getFinalForm frames (name term2) (h ! theta) of
           Inl e \<Rightarrow> (Inl e, h)
         | Inr linkedTermName \<Rightarrow>
            (case Predicate_copy term2 of
               Inl e \<Rightarrow> (Inl e, h)
             | Inr newTerm \<Rightarrow>
                (case unify frames variable (set_name newTerm linkedTermName) theta h of
                   (Inl e, h') \<Rightarrow> (Inl e, h')
                 | (Inr None, h') \<Rightarrow> (Inl TypeError, h')
                 | (Inr (Some r), h') \<Rightarrow>
                     (let (unifications, h'') = dict_or theta r h'
                      in (Inr (Some unifications), h'')))))
      else (Inr (Some theta), dict_set theta (name variable) (name term2) h))"
| "unify_outer frames [] ts2 theta h = (Inr (Some theta), h)"
| "unify_outer frames (termOuter # rest) ts2 theta h =
     (case unify_inner frames termOuter ts2 theta h of
        (Inl e, h') \<Rightarrow> (Inl e, h')
      | (Inr None, h') \<Rightarrow> (Inr None, h')
      | (Inr (Some theta'), h') \<Rightarrow> unify_outer frames rest ts2 theta' h')"
| "unify_inner frames termOuter [] theta h = (Inr (Some theta), h)"
| "unify_inner frames termOuter (termInner # rest) theta h =
     (case unify frames termInner termOuter theta h of
        (Inl e, h') \<Rightarrow> (Inl e, h')
      | (Inr None, h') \<Rightarrow> (Inr None, h')
      | (Inr (Some uni_res), h') \<Rightarrow>
          (let (theta', h'') = dict_or theta uni_res h'
           in unify_inner frames termOuter rest theta' h''))"
  by pat_completeness auto
termination
  apply (relation "measure (\<lambda>x. case x of
      Inl (Inl (_, t1, t2, _, _)) \<Rightarrow> 2 * (size t1 + size t2) + 1
    | Inl (Inr (_, v, t2, _, _)) \<Rightarrow> 2 * (size v + size t2)
    | Inr (Inl (_, ts1, ts2, _, _)) \<Rightarrow> 2 * (size_list size ts1 + size_list size ts2) + 1
    | Inr (Inr (_, t, ts2, _, _)) \<Rightarrow> 2 * (size t + size_list size ts2) + 1)")
  apply (auto simp: Predicate_copy_def)
  subgoal for t1 t2
    by (cases t1; cases t2) simp
  done


text \<open>
  What a caller of \<^verbatim>\<open>unify(t1, t2, oldTheta)\<close> sees when \<^verbatim>\<open>oldTheta\<close> is the only dict:
  the exception, \<^verbatim>\<open>None\<close>, or the bindings of the dict returned.
\<close>

definition run_unify :: "nat \<Rightarrow> Predicate \<Rightarrow> Predicate \<Rightarrow> theta \<Rightarrow> error + theta option" where
  "run_unify frames t1 t2 oldTheta =
     (case unify frames t1 t2 0 [oldTheta] of
        (Inl e, h) \<Rightarrow> Inl e
      | (Inr None, h) \<Rightarrow> Inr None
      | (Inr (Some r), h) \<Rightarrow> Inr (Some (h ! r)))"

text \<open>
  \<^verbatim>\<open>unify_predicates\<close>: the loop \<^verbatim>\<open>for i in range(len(p1.terms))\<close> over the indices;
  \<^verbatim>\<open>p2.terms[i]\<close> raises IndexError when \<^verbatim>\<open>p2\<close> has fewer terms. In
  \<^verbatim>\<open>tempTheta | unification_theta\<close> the bindings of \<^verbatim>\<open>unification_theta\<close> win. The function
  starts from a fresh empty dict, so it is run on a store of its own and returns the
  bindings of its result.
\<close>

fun unify_predicates_loop ::
  "nat \<Rightarrow> Predicate list \<Rightarrow> Predicate list \<Rightarrow> nat list \<Rightarrow> ref \<Rightarrow> store \<Rightarrow> (error + ref option) \<times> store"
where
  "unify_predicates_loop frames ts1 ts2 [] unification_theta h = (Inr (Some unification_theta), h)"
| "unify_predicates_loop frames ts1 ts2 (i # is) unification_theta h =
     (if length ts2 \<le> i then (Inl IndexError, h)
      else
        (case unify frames (ts1 ! i) (ts2 ! i) unification_theta h of
           (Inl e, h') \<Rightarrow> (Inl e, h')
         | (Inr None, h') \<Rightarrow> (Inr None, h')
         | (Inr (Some tempTheta), h') \<Rightarrow>
             (let (unification_theta', h'') = dict_or tempTheta unification_theta h'
              in unify_predicates_loop frames ts1 ts2 is unification_theta' h'')))"

definition unify_predicates :: "nat \<Rightarrow> Predicate \<Rightarrow> Predicate \<Rightarrow> error + theta option" where
  "unify_predicates frames p1 p2 =
     (case unify_predicates_loop frames (terms p1) (terms p2) [0 ..< length (terms p1)] 0 [Map.empty] of
        (Inl e, h) \<Rightarrow> Inl e
      | (Inr None, h) \<Rightarrow> Inr None
      | (Inr (Some r), h) \<Rightarrow> Inr (Some (h ! r)))"

text \<open>
  Variables and constants as \<^verbatim>\<open>termParser\<close> builds them:
  \<^verbatim>\<open>Predicate(term_str, False, [], VARIABLE_TYPE, term_str)\<close> and the same with
  \<^verbatim>\<open>CONSTANT_TYPE\<close>.
\<close>

definition Variable :: "string \<Rightarrow> Predicate" where
  "Variable n = Predicate n False [] VARIABLE_TYPE n"

definition Constant :: "string \<Rightarrow> Predicate" where
  "Constant n = Predicate n False [] CONSTANT_TYPE n"

section \<open>Applying a substitution, resolution\<close>

text \<open>
  Python string operations used by \<^verbatim>\<open>termParser\<close>. Strings are lists of characters
  with code points below 256; \<^verbatim>\<open>s.strip()\<close> removes the characters for which
  \<^verbatim>\<open>str.isspace\<close> holds from both ends.
\<close>

definition whitespace :: "char list" where
  "whitespace = [CHR 0x09, CHR 0x0A, CHR 0x0B, CHR 0x0C, CHR 0x0D, CHR 0x1C, CHR 0x1D, CHR 0x1E,
     CHR 0x1F, CHR 0x20, CHR 0x85, CHR 0xA0]"

definition strip :: "string \<Rightarrow> string" where
  "strip s = rev (dropWhile (\<lambda>c. c \<in> set whitespace) (rev (dropWhile (\<lambda>c. c \<in> set whitespace) s)))"

text \<open>
  \<^verbatim>\<open>s.split(",")\<close>: the pieces between the separators, at least one piece.
\<close>

fun split_on :: "char \<Rightarrow> string \<Rightarrow> string list" where
  "split_on c [] = [[]]"
| "split_on c (x # xs) =
     (if x = c then [] # split_on c xs
      else (case split_on c xs of [] \<Rightarrow> [[x]] | w # ws \<Rightarrow> (x # w) # ws))"

text \<open>
  \<^verbatim>\<open>s[a:b]\<close> for indices that are not negative.
\<close>

definition slice :: "nat \<Rightarrow> nat \<Rightarrow> string \<Rightarrow> string" where
  "slice a b s = take (b - a) (drop a s)"

text \<open>
  A loop whose body may raise, over the results of the body taken in order: the first
  exception, or the list of all values.
\<close>

fun collect :: "(error + 'a) list \<Rightarrow> error + 'a list" where
  "collect [] = Inr []"
| "collect (Inl e # rs) = Inl e"
| "collect (Inr x # rs) = (case collect rs of Inl e \<Rightarrow> Inl e | Inr xs \<Rightarrow> Inr (x # xs))"

text \<open>
  \<^verbatim>\<open>termParser\<close>, called by \<^verbatim>\<open>getFinalPredicate\<close> on the text of a function term. The sets
  \<^verbatim>\<open>variables\<close> and \<^verbatim>\<open>constants\<close> are those of the input file; \<^verbatim>\<open>Exception("error bad parse")\<close>
  is \<open>BadParse\<close>.
\<close>

function termParser :: "string \<Rightarrow> string set \<Rightarrow> string set \<Rightarrow> error + Predicate" where
  "termParser term_str0 variables constants =
     (let term_str = strip term_str0 in
      if CHR ''('' \<in> set term_str then
        (case str_index term_str CHR ''('' of
           Inl e \<Rightarrow> Inl e
         | Inr first_paren \<Rightarrow>
            (let second_paren = length term_str - 1;
                 func_args = split_on CHR '','' (slice (first_paren + 1) second_paren term_str)
             in case collect (map (\<lambda>arg. termParser arg variables constants) func_args) of
                  Inl e \<Rightarrow> Inl e
                | Inr ts \<Rightarrow> Inr (Predicate term_str False ts FUNCTION_TYPE (take first_paren term_str))))
      else if term_str \<in> variables then Inr (Predicate term_str False [] VARIABLE_TYPE term_str)
      else if term_str \<in> constants then Inr (Predicate term_str False [] CONSTANT_TYPE term_str)
      else Inl BadParse)"
  by pat_completeness auto
termination
proof (relation "measure (\<lambda>(s, _, _). length s)", simp, goal_cases)
  case (1 term_str0 variables constants x xa xb xc xd)
  have split_all: "\<forall>w \<in> set (split_on c s). length w \<le> length s" for c s
  proof (induction s)
    case Nil
    then show ?case by simp
  next
    case (Cons a s)
    then show ?case by (cases "split_on c s") (auto split: if_splits intro: le_SucI)
  qed
  then have split_len: "w \<in> set (split_on c s) \<Longrightarrow> length w \<le> length s" for w c s
    by blast
  have strip_len: "length (strip s) \<le> length s" for s
    unfolding strip_def
    by (metis length_dropWhile_le length_rev le_trans)
  from 1 have ne: "x \<noteq> []" by auto
  from 1 have "length xd \<le> length (slice (xa + 1) (length x - 1) x)"
    using split_len by simp
  also have "\<dots> < length x" using ne by (cases x) (auto simp: slice_def)
  also have "\<dots> \<le> length term_str0" using 1 strip_len by simp
  finally show ?case by simp
qed


text \<open>
  \<^verbatim>\<open>getFinalPredicate\<close> reads the module globals \<^verbatim>\<open>variables\<close> and \<^verbatim>\<open>constants\<close>, here the
  first two parameters. The loop body appends one term, or none for a term whose type is
  none of the three tested; \<^verbatim>\<open>print("error"); exit()\<close> is \<open>SystemExit\<close>. The new name is
  the name tag, an opening parenthesis, each new term's name after a space, and \<^verbatim>\<open>" )"\<close>.
\<close>

fun getFinalPredicate :: "nat \<Rightarrow> string set \<Rightarrow> string set \<Rightarrow> Predicate \<Rightarrow> theta \<Rightarrow> error + Predicate" where
  "getFinalPredicate frames variables constants (Predicate nm neg ts ty tag) theta =
     (case collect (map (\<lambda>term.
              if type term = CONSTANT_TYPE then Inr [term]
              else if type term = VARIABLE_TYPE then
                (case getFinalForm frames (name term) theta of
                   Inl e \<Rightarrow> Inl e
                 | Inr final_form \<Rightarrow>
                     if final_form \<in> constants
                     then Inr [Predicate final_form False [] CONSTANT_TYPE final_form]
                     else if final_form \<in> variables
                     then Inr [Predicate final_form False [] VARIABLE_TYPE final_form]
                     else if CHR ''('' \<in> set final_form
                     then (case termParser final_form variables constants of
                             Inl e \<Rightarrow> Inl e | Inr new_var \<Rightarrow> Inr [new_var])
                     else Inl SystemExit)
              else if type term = FUNCTION_TYPE then
                (case getFinalPredicate frames variables constants term theta of
                   Inl e \<Rightarrow> Inl e | Inr finalFunction \<Rightarrow> Inr [finalFunction])
              else Inr []) ts) of
        Inl e \<Rightarrow> Inl e
      | Inr appended \<Rightarrow>
          (let newTerms = concat appended;
               newName = tag @ ''('' @ concat (map (\<lambda>term. '' '' @ name term) newTerms) @ '' )''
           in Inr (Predicate newName neg newTerms ty tag)))"

text \<open>
  \<^verbatim>\<open>resolve\<close>. The text added to \<^verbatim>\<open>new_name\<close> for a literal kept,
  \<^verbatim>\<open>"!" if p.negated else "" + p.name + " "\<close>: the conditional binds weakest.
\<close>

definition name_piece :: "Predicate \<Rightarrow> string" where
  "name_piece p = (if negated p then ''!'' else [] @ name p @ '' '')"

text \<open>
  The two iterations that build \<^verbatim>\<open>output_pred\<close> after a successful unification: a literal
  whose name is the name of the resolved literal is skipped, every other literal is
  replaced by \<^verbatim>\<open>getFinalPredicate\<close> of it, a new object (at the next free address).
\<close>

fun combine_unified ::
  "nat \<Rightarrow> string set \<Rightarrow> string set \<Rightarrow> Predicate \<Rightarrow> theta \<Rightarrow> obj list \<Rightarrow> obj list \<times> string \<times> addr
     \<Rightarrow> error + obj list \<times> string \<times> addr"
where
  "combine_unified frames variables constants pred global_unification [] acc = Inr acc"
| "combine_unified frames variables constants pred global_unification (pred_combine # rest)
       (output_pred, new_name, nxt) =
     (if name (snd pred_combine) = name pred
      then combine_unified frames variables constants pred global_unification rest
             (output_pred, new_name, nxt)
      else
        (case getFinalPredicate frames variables constants (snd pred_combine) global_unification of
           Inl e \<Rightarrow> Inl e
         | Inr final \<Rightarrow>
             combine_unified frames variables constants pred global_unification rest
               (output_pred @ [(nxt, final)], new_name @ name_piece (snd pred_combine), Suc nxt)))"

text \<open>
  The two iterations that build \<^verbatim>\<open>output_pred\<close> for literals without terms: the literal that
  \<^verbatim>\<open>is\<close> the resolved one is skipped, every other literal is kept as the object it is.
\<close>

definition combine_nullary :: "obj \<Rightarrow> obj list \<Rightarrow> obj list \<times> string \<Rightarrow> obj list \<times> string" where
  "combine_nullary pred ps acc =
     (let kept = filter (\<lambda>pred_combine. fst pred_combine \<noteq> fst pred) ps
      in (fst acc @ kept, snd acc @ concat (map (\<lambda>p. name_piece (snd p)) kept)))"

text \<open>
  The body of the two nested iterations of \<^verbatim>\<open>resolve\<close>, on the state
  (\<^verbatim>\<open>global_unification\<close>, \<^verbatim>\<open>out_clause\<close>, next free address). The set
  \<^verbatim>\<open>resolved_predicates\<close> is written and never read, and is left out.
\<close>

definition resolve_pair ::
  "nat \<Rightarrow> string set \<Rightarrow> string set \<Rightarrow> Clause \<Rightarrow> Clause \<Rightarrow> obj \<Rightarrow> obj \<Rightarrow> theta \<times> Clause list \<times> addr
     \<Rightarrow> error + theta \<times> Clause list \<times> addr"
where
  "resolve_pair frames variables constants clause1 clause2 c1_pred c2_pred st =
     (case st of (global_unification, out_clause, nxt) \<Rightarrow>
      if nameTag (snd c2_pred) = nameTag (snd c1_pred)
         \<and> negated (snd c1_pred) \<noteq> negated (snd c2_pred) then
        if terms (snd c1_pred) = [] \<and> terms (snd c2_pred) = [] then
          (let (output_pred, new_name) =
                 combine_nullary c2_pred (predicates clause2)
                   (combine_nullary c1_pred (predicates clause1) ([], []))
           in Inr (global_unification, out_clause @ [Clause new_name output_pred], nxt))
        else
          (case unify_predicates frames (snd c1_pred) (snd c2_pred) of
             Inl e \<Rightarrow> Inl e
           | Inr None \<Rightarrow> Inr st
           | Inr (Some pred_uni) \<Rightarrow>
              (let global_unification' = global_unification ++ pred_uni in
               case combine_unified frames variables constants (snd c1_pred) global_unification'
                      (predicates clause1) ([], [], nxt) of
                 Inl e \<Rightarrow> Inl e
               | Inr acc1 \<Rightarrow>
                  (case combine_unified frames variables constants (snd c2_pred) global_unification'
                          (predicates clause2) acc1 of
                     Inl e \<Rightarrow> Inl e
                   | Inr (output_pred, new_name, nxt') \<Rightarrow>
                       Inr (global_unification',
                            out_clause @ [Clause new_name output_pred], nxt'))))
      else Inr st)"

fun resolve_inner ::
  "nat \<Rightarrow> string set \<Rightarrow> string set \<Rightarrow> Clause \<Rightarrow> Clause \<Rightarrow> obj \<Rightarrow> obj list \<Rightarrow> theta \<times> Clause list \<times> addr
     \<Rightarrow> error + theta \<times> Clause list \<times> addr"
where
  "resolve_inner frames variables constants clause1 clause2 c1_pred [] st = Inr st"
| "resolve_inner frames variables constants clause1 clause2 c1_pred (c2_pred # rest) st =
     (case resolve_pair frames variables constants clause1 clause2 c1_pred c2_pred st of
        Inl e \<Rightarrow> Inl e
      | Inr st' \<Rightarrow> resolve_inner frames variables constants clause1 clause2 c1_pred rest st')"

fun resolve_outer ::
  "nat \<Rightarrow> string set \<Rightarrow> string set \<Rightarrow> Clause \<Rightarrow> Clause \<Rightarrow> obj list \<Rightarrow> theta \<times> Clause list \<times> addr
     \<Rightarrow> error + theta \<times> Clause list \<times> addr"
where
  "resolve_outer frames variables constants clause1 clause2 [] st = Inr st"
| "resolve_outer frames variables constants clause1 clause2 (c1_pred # rest) st =
     (case resolve_inner frames variables constants clause1 clause2 c1_pred (predicates clause2) st of
        Inl e \<Rightarrow> Inl e
      | Inr st' \<Rightarrow> resolve_outer frames variables constants clause1 clause2 rest st')"

text \<open>
  \<^verbatim>\<open>resolve\<close>: the resolvents, then the two parent clauses.
\<close>

definition resolve ::
  "nat \<Rightarrow> string set \<Rightarrow> string set \<Rightarrow> Clause \<Rightarrow> Clause \<Rightarrow> addr \<Rightarrow> error + Clause list \<times> addr" where
  "resolve frames variables constants clause1 clause2 nxt =
     (case resolve_outer frames variables constants clause1 clause2 (predicates clause1)
             (Map.empty, [], nxt) of
        Inl e \<Rightarrow> Inl e
      | Inr (global_unification, out_clause, nxt') \<Rightarrow> Inr (out_clause @ [clause1, clause2], nxt'))"

section \<open>The saturation loop\<close>

text \<open>
  Python sets of clauses. \<^verbatim>\<open>Clause.__hash__\<close> is the hash of the name and \<^verbatim>\<open>Clause.__eq__\<close>
  makes clauses of different names unequal, so membership is: some element is \<^verbatim>\<open>==\<close> to
  the clause. A set is the list of its elements, no two of them \<^verbatim>\<open>==\<close>; \<^verbatim>\<open>set(xs)\<close> and
  \<^verbatim>\<open>a | b\<close> add the elements one by one, an element already present being left out. The
  same test serves for \<^verbatim>\<open>x in xs\<close> on a list.
\<close>

definition contains :: "Clause list \<Rightarrow> Clause \<Rightarrow> bool" where
  "contains s x \<longleftrightarrow> list_ex (\<lambda>y. Clause_eq y x) s"

definition set_add :: "Clause list \<Rightarrow> Clause \<Rightarrow> Clause list" where
  "set_add s x = (if contains s x then s else s @ [x])"

definition set_union :: "Clause list \<Rightarrow> Clause list \<Rightarrow> Clause list" where
  "set_union a b = fold (\<lambda>x s. set_add s x) b a"

definition set_of :: "Clause list \<Rightarrow> Clause list" where
  "set_of xs = set_union [] xs"

definition issubset :: "Clause list \<Rightarrow> Clause list \<Rightarrow> bool" where
  "issubset a b \<longleftrightarrow> list_all (contains b) a"

text \<open>
  The two ways \<^verbatim>\<open>resolver\<close> ends: \<^verbatim>\<open>print("yes"); exit()\<close> and \<^verbatim>\<open>print("no"); exit()\<close>.
\<close>

datatype outcome = Yes | No

text \<open>
  The pairs \<^verbatim>\<open>(c1, c2)\<close> of the two iterations over \<^verbatim>\<open>c1_index\<close> and \<^verbatim>\<open>c2_index\<close>, in the order
  the iterations visit them.
\<close>

definition clause_pairs :: "Clause list \<Rightarrow> (Clause \<times> Clause) list" where
  "clause_pairs clause_loop =
     concat (map (\<lambda>c1_index.
        map (\<lambda>c2_index. (clause_loop ! c1_index, clause_loop ! c2_index))
          [c1_index + 1 ..< length clause_loop]) [0 ..< length clause_loop])"

text \<open>
  The body of the iterations on the state (\<^verbatim>\<open>new_clause\<close>, next free address): an exception
  of \<^verbatim>\<open>resolve\<close> ends the program, the empty clause among the resolvents ends it with
  \<^verbatim>\<open>no\<close>.
\<close>

fun resolver_pairs ::
  "nat \<Rightarrow> string set \<Rightarrow> string set \<Rightarrow> (Clause \<times> Clause) list \<Rightarrow> Clause list \<times> addr
     \<Rightarrow> error + (outcome + Clause list \<times> addr)"
where
  "resolver_pairs frames variables constants [] st = Inr (Inr st)"
| "resolver_pairs frames variables constants ((c1, c2) # rest) (new_clause, nxt) =
     (case resolve frames variables constants c1 c2 nxt of
        Inl e \<Rightarrow> Inl e
      | Inr (resolvents, nxt') \<Rightarrow>
          if contains resolvents (Clause [] []) then Inr (Inl No)
          else resolver_pairs frames variables constants rest
                 (set_union new_clause (set_of resolvents), nxt'))"

text \<open>
  One pass of the \<^verbatim>\<open>while\<close> loop, on the state (\<^verbatim>\<open>current_clauses\<close>, \<^verbatim>\<open>new_clause\<close>, next
  free address): \<^verbatim>\<open>new_clause\<close> is created once, before the loop, and keeps the resolvents
  of the earlier passes.
\<close>

definition resolver_round ::
  "nat \<Rightarrow> string set \<Rightarrow> string set \<Rightarrow> Clause list \<Rightarrow> Clause list \<times> Clause list \<times> addr
     \<Rightarrow> error + (outcome + Clause list \<times> Clause list \<times> addr)"
where
  "resolver_round frames variables constants clause_loop st =
     (case st of (current_clauses, new_clause, nxt) \<Rightarrow>
      case resolver_pairs frames variables constants (clause_pairs clause_loop) (new_clause, nxt) of
        Inl e \<Rightarrow> Inl e
      | Inr (Inl out) \<Rightarrow> Inr (Inl out)
      | Inr (Inr (new_clause', nxt')) \<Rightarrow>
          if issubset new_clause' (set_of current_clauses) then Inr (Inl Yes)
          else Inr (Inr (set_union current_clauses new_clause', new_clause', nxt')))"

text \<open>
  The \<^verbatim>\<open>while (True)\<close> loop may run forever: \<open>None\<close> is a run without end (the loop
  makes no nested calls, so the bound on the stack does not end it). The order in
  which \<^verbatim>\<open>list(current_clauses)\<close> lists a set is not specified by Python; it is the
  parameter \<open>iter\<close>.
\<close>

partial_function (option) resolver_loop ::
  "nat \<Rightarrow> (Clause list \<Rightarrow> Clause list) \<Rightarrow> string set \<Rightarrow> string set \<Rightarrow> Clause list \<times> Clause list \<times> addr
     \<Rightarrow> (error + outcome) option"
where
  "resolver_loop frames iter variables constants st =
     (case resolver_round frames variables constants (iter (fst st)) st of
        Inl e \<Rightarrow> Some (Inl e)
      | Inr (Inl out) \<Rightarrow> Some (Inr out)
      | Inr (Inr st') \<Rightarrow> resolver_loop frames iter variables constants st')"

definition resolver ::
  "nat \<Rightarrow> (Clause list \<Rightarrow> Clause list) \<Rightarrow> string set \<Rightarrow> string set \<Rightarrow> Clause list \<Rightarrow> addr
     \<Rightarrow> (error + outcome) option"
where
  "resolver frames iter variables constants clauses nxt =
     resolver_loop frames iter variables constants (set_of clauses, [], nxt)"

text \<open>
  The words of the spec for one round: the resolvents of all pairs of the round, when no
  pair raises; the clauses \<^verbatim>\<open>new_clause\<close> holds after them; the test for the empty
  clause.
\<close>

fun round_resolvents ::
  "nat \<Rightarrow> string set \<Rightarrow> string set \<Rightarrow> (Clause \<times> Clause) list \<Rightarrow> addr \<Rightarrow> error + Clause list list \<times> addr"
where
  "round_resolvents frames variables constants [] nxt = Inr ([], nxt)"
| "round_resolvents frames variables constants ((c1, c2) # rest) nxt =
     (case resolve frames variables constants c1 c2 nxt of
        Inl e \<Rightarrow> Inl e
      | Inr (resolvents, nxt') \<Rightarrow>
         (case round_resolvents frames variables constants rest nxt' of
            Inl e \<Rightarrow> Inl e
          | Inr (rss, nxt'') \<Rightarrow> Inr (resolvents # rss, nxt'')))"

definition add_resolvents :: "Clause list \<Rightarrow> Clause list list \<Rightarrow> Clause list" where
  "add_resolvents new_clause rss = fold (\<lambda>resolvents n. set_union n (set_of resolvents)) rss new_clause"

definition has_empty_clause :: "Clause list \<Rightarrow> bool" where
  "has_empty_clause resolvents \<longleftrightarrow> contains resolvents (Clause [] [])"

text \<open>
  The words of the amended claim on clause sets: the empty clause as the test of
  \<^verbatim>\<open>resolver\<close> finds it (no literal, the empty name); two clauses with the same name, as many
  literals and \<^verbatim>\<open>==\<close> literals at every index; two clauses that differ in the name, in the
  number of literals or in a literal before the last.
\<close>

definition empty_clause :: "Clause \<Rightarrow> bool" where
  "empty_clause c \<longleftrightarrow> clause_name c = [] \<and> predicates c = []"

definition same_clause :: "Clause \<Rightarrow> Clause \<Rightarrow> bool" where
  "same_clause c d \<longleftrightarrow>
     clause_name c = clause_name d \<and> length (predicates c) = length (predicates d)
     \<and> list_all (\<lambda>i. Predicate_eq (snd (predicates c ! i)) (snd (predicates d ! i)))
          [0 ..< length (predicates c)]"

definition differs_before_last :: "Clause \<Rightarrow> Clause \<Rightarrow> bool" where
  "differs_before_last c d \<longleftrightarrow>
     clause_name c \<noteq> clause_name d \<or> length (predicates c) \<noteq> length (predicates d)
     \<or> list_ex (\<lambda>i. \<not> Predicate_eq (snd (predicates c ! i)) (snd (predicates d ! i)))
          [0 ..< length (predicates c) - 1]"

text \<open>
  The states in which the rounds of a run of \<^verbatim>\<open>resolver(clauses)\<close> start.
\<close>

inductive round_state ::
  "nat \<Rightarrow> (Clause list \<Rightarrow> Clause list) \<Rightarrow> string set \<Rightarrow> string set \<Rightarrow> Clause list \<Rightarrow> addr
     \<Rightarrow> Clause list \<times> Clause list \<times> addr \<Rightarrow> bool"
  for frames iter variables constants clauses nxt0
where
  first: "round_state frames iter variables constants clauses nxt0 (set_of clauses, [], nxt0)"
| later: "round_state frames iter variables constants clauses nxt0 st \<Longrightarrow>
     resolver_round frames variables constants (iter (fst st)) st = Inr (Inr st') \<Longrightarrow>
     round_state frames iter variables constants clauses nxt0 st'"

section \<open>Auxiliary notions\<close>



text \<open>
  Two relations between a store and a later one: \<open>ext h h'\<close>, every dict of \<open>h\<close> is still
  there with the same bindings; \<open>frame a h h'\<close>, the same for every dict but the one at \<open>a\<close>.
\<close>

definition ext :: "store \<Rightarrow> store \<Rightarrow> bool" where
  "ext h h' \<longleftrightarrow> take (length h) h' = h"

definition frame :: "ref \<Rightarrow> store \<Rightarrow> store \<Rightarrow> bool" where
  "frame a h h' \<longleftrightarrow> length h \<le> length h' \<and> (\<forall>b < length h. b \<noteq> a \<longrightarrow> h' ! b = h ! b)"

text \<open>
  The words of the amended claim on function terms: the name before the parenthesis; the pairs
  of an argument of \<^verbatim>\<open>t2\<close> and an argument of \<^verbatim>\<open>t1\<close>, in the order the two nested
  iterations visit them; one iteration over a list of pairs that threads the substitution.
\<close>

definition function_name :: "Predicate \<Rightarrow> error + string" where
  "function_name t =
     (case str_index (name t) CHR ''('' of Inl e \<Rightarrow> Inl e | Inr i \<Rightarrow> Inr (take i (name t)))"

definition argument_pairs :: "Predicate \<Rightarrow> Predicate \<Rightarrow> (Predicate \<times> Predicate) list" where
  "argument_pairs t1 t2 =
     concat (map (\<lambda>termOuter. map (\<lambda>termInner. (termInner, termOuter)) (terms t2)) (terms t1))"

fun unify_pairs ::
  "nat \<Rightarrow> (Predicate \<times> Predicate) list \<Rightarrow> ref \<Rightarrow> store \<Rightarrow> (error + ref option) \<times> store"
where
  "unify_pairs frames [] theta h = (Inr (Some theta), h)"
| "unify_pairs frames ((termInner, termOuter) # rest) theta h =
     (case unify frames termInner termOuter theta h of
        (Inl e, h') \<Rightarrow> (Inl e, h')
      | (Inr None, h') \<Rightarrow> (Inr None, h')
      | (Inr (Some uni_res), h') \<Rightarrow>
          (let (theta', h'') = dict_or theta uni_res h'
           in unify_pairs frames rest theta' h''))"

text \<open>
  One step along the bindings of a substitution: the name a name is bound to, the name
  itself when it has no binding. The chain from \<open>v\<close> is \<open>v\<close>, \<open>binding_step \<theta> v\<close>, ...
\<close>

definition binding_step :: "theta \<Rightarrow> string \<Rightarrow> string" where
  "binding_step \<theta> v = (case \<theta> v of None \<Rightarrow> v | Some t \<Rightarrow> t)"

section \<open>Equality of literals and clauses\<close>

lemma Predicate_eq_iff:
  "Predicate_eq p q \<longleftrightarrow> name p = name q \<and> type p = type q \<and> negated p = negated q"
  by (auto simp: Predicate_eq_def)


lemma Clause_eq_iff:
  "Clause_eq c d \<longleftrightarrow>
     clause_name c = clause_name d \<and> length (predicates c) = length (predicates d)
     \<and> (\<forall>i < length (predicates c) - 1.
            Predicate_eq (snd (predicates c ! i)) (snd (predicates d ! i)))"
  by (auto simp: Clause_eq_def Clause_eq_loop_def list_all_iff)

text \<open>
  C5 (the claim: literals are equal iff name, negation flag and argument sequences agree).
  \<^verbatim>\<open>Predicate.__eq__\<close> does not read \<^verbatim>\<open>terms\<close>: the literals \<^verbatim>\<open>P(a)\<close> and \<^verbatim>\<open>P(b)\<close>, which
  the parser builds with the same name \<^verbatim>\<open>P\<close>, compare equal although their argument
  lists differ.
\<close>

theorem Predicate_eq_ignores_terms:
  "Predicate_eq
     (Predicate ''P'' False [Predicate ''a'' False [] CONSTANT_TYPE ''a''] PREDICATE_TYPE ''P'')
     (Predicate ''P'' False [Predicate ''b'' False [] CONSTANT_TYPE ''b''] PREDICATE_TYPE ''P'')
   \<and> terms (Predicate ''P'' False [Predicate ''a'' False [] CONSTANT_TYPE ''a''] PREDICATE_TYPE ''P'')
     \<noteq> terms (Predicate ''P'' False [Predicate ''b'' False [] CONSTANT_TYPE ''b''] PREDICATE_TYPE ''P'')"
  by (simp add: Predicate_eq_def)

text \<open>
  C6 (the claim: clauses are equal iff the multisets of their literals are equal, whatever
  their names). As stated it fails: the clauses \<^verbatim>\<open>P Q\<close> and \<^verbatim>\<open>Q P\<close> hold the same literals
  and are unequal, because \<^verbatim>\<open>Clause.__eq__\<close> compares the names first.
\<close>

theorem Clause_eq_multiset_counterexample:
  "mset (map snd (predicates (Clause ''P Q''
      [(0, Predicate ''P'' False [] PREDICATE_TYPE ''P''),
       (1, Predicate ''Q'' False [] PREDICATE_TYPE ''Q'')])))
   = mset (map snd (predicates (Clause ''Q P''
      [(2, Predicate ''Q'' False [] PREDICATE_TYPE ''Q''),
       (3, Predicate ''P'' False [] PREDICATE_TYPE ''P'')])))
   \<and> \<not> Clause_eq
      (Clause ''P Q''
        [(0, Predicate ''P'' False [] PREDICATE_TYPE ''P''),
         (1, Predicate ''Q'' False [] PREDICATE_TYPE ''Q'')])
      (Clause ''Q P''
        [(2, Predicate ''Q'' False [] PREDICATE_TYPE ''Q''),
         (3, Predicate ''P'' False [] PREDICATE_TYPE ''P'')])"
  by (simp add: Clause_eq_def)

text \<open>
  C6 as amended: clause equality is by display name and by position. Equal clauses have
  the same name, the same number of literals and pairwise equal literals (in the sense of
  \<^verbatim>\<open>Predicate.__eq__\<close>) at every index before the last; and clauses with the same name, the
  same number of literals and pairwise equal literals at every index are equal.
\<close>

theorem Clause_eq_by_name_and_position:
  "(Clause_eq c d \<longrightarrow>
      clause_name c = clause_name d \<and> length (predicates c) = length (predicates d)
      \<and> (\<forall>i < length (predicates c) - 1.
            Predicate_eq (snd (predicates c ! i)) (snd (predicates d ! i))))
   \<and> (clause_name c = clause_name d \<and> length (predicates c) = length (predicates d)
      \<and> (\<forall>i < length (predicates c).
            Predicate_eq (snd (predicates c ! i)) (snd (predicates d ! i)))
      \<longrightarrow> Clause_eq c d)"
  by (auto simp: Clause_eq_iff)

theorem Clause_eq_by_name_and_position_witness:
  "Clause_eq
     (Clause ''P Q'' [(0, Predicate ''P'' False [] PREDICATE_TYPE ''P''),
                      (1, Predicate ''Q'' False [] PREDICATE_TYPE ''Q'')])
     (Clause ''P Q'' [(2, Predicate ''P'' False [] PREDICATE_TYPE ''P''),
                      (3, Predicate ''Q'' False [] PREDICATE_TYPE ''Q'')])
   \<and> clause_name (Clause ''P Q'' [(0, Predicate ''P'' False [] PREDICATE_TYPE ''P''),
                      (1, Predicate ''Q'' False [] PREDICATE_TYPE ''Q'')])
     = clause_name (Clause ''P Q'' [(2, Predicate ''P'' False [] PREDICATE_TYPE ''P''),
                      (3, Predicate ''Q'' False [] PREDICATE_TYPE ''Q'')])"
proof -
  let ?c = "Clause ''P Q'' [(0, Predicate ''P'' False [] PREDICATE_TYPE ''P''),
                      (1, Predicate ''Q'' False [] PREDICATE_TYPE ''Q'')]"
  let ?d = "Clause ''P Q'' [(2, Predicate ''P'' False [] PREDICATE_TYPE ''P''),
                      (3, Predicate ''Q'' False [] PREDICATE_TYPE ''Q'')]"
  have h: "clause_name ?c = clause_name ?d \<and> length (predicates ?c) = length (predicates ?d)
      \<and> (\<forall>i < length (predicates ?c).
            Predicate_eq (snd (predicates ?c ! i)) (snd (predicates ?d ! i)))"
    by (simp add: Predicate_eq_def less_Suc_eq numeral_2_eq_2)
  from Clause_eq_by_name_and_position [of ?c ?d] h have "Clause_eq ?c ?d"
    by blast
  then show ?thesis by simp
qed

section \<open>Unification\<close>

declare unify.simps [simp del] unify_variable.simps [simp del]

lemma getFinalForm_numeral:
  "getFinalForm (numeral k) variableName theta =
     (case theta variableName of
        None \<Rightarrow> Inr variableName
      | Some translated \<Rightarrow> getFinalForm (pred_numeral k) translated theta)"
  by (simp add: numeral_eq_Suc)

lemma unify_variable_eq:
  "unify_variable frames variable term2 theta h =
     (if has_key (h ! theta) (name variable) then
        (case getFinalForm frames (name variable) (h ! theta) of
           Inl e \<Rightarrow> (Inl e, h) | Inr n \<Rightarrow> (Inl TypeError, h))
      else if has_key (h ! theta) (name term2) then
        (case getFinalForm frames (name term2) (h ! theta) of
           Inl e \<Rightarrow> (Inl e, h) | Inr n \<Rightarrow> (Inl TypeError, h))
      else (Inr (Some theta), dict_set theta (name variable) (name term2) h))"
  by (simp add: unify_variable.simps Predicate_copy_def split: sum.splits)

lemma ext_refl: "ext h h" by (simp add: ext_def)

lemma ext_trans: "ext h h1 \<Longrightarrow> ext h1 h2 \<Longrightarrow> ext h h2"
  unfolding ext_def
  by (metis append_eq_conv_conj append_take_drop_id append.assoc)

lemma ext_append: "ext h (h @ xs)" by (simp add: ext_def)

lemma unify_variable_frame: "frame theta h (snd (unify_variable frames variable term2 theta h))"
  by (simp add: unify_variable_eq frame_def dict_set_def split: sum.splits)

lemma frame_fresh_ext: "frame (length h) (h @ [x]) h' \<Longrightarrow> ext h h'"
  unfolding frame_def ext_def
  by (auto intro!: nth_equalityI simp: nth_append)

lemma ext_post:
  "ext h (snd x) \<Longrightarrow>
   ext h (snd (case x of
        (Inl e, h') \<Rightarrow> (Inl e, h')
      | (Inr None, h') \<Rightarrow> (Inr None, h')
      | (Inr (Some u), h') \<Rightarrow> (let (r, h'') = dict_or theta u h' in (Inr (Some r), h''))))"
  by (auto split: prod.splits sum.splits option.splits simp: dict_or_def intro: ext_trans ext_append)

lemma unify_ext_all:
  "ext h (snd (unify frames t1 t2 a h))"
  "frame a h (snd (unify_variable frames v tt a h))"
  "ext h (snd (unify_outer frames ts1 ts2 a h))"
  "ext h (snd (unify_inner frames t ts2 a h))"
proof (induction frames t1 t2 a h and frames v tt a h and frames ts1 ts2 a h and frames t ts2 a h
    rule: unify_unify_variable_unify_outer_unify_inner.induct)
  case (1 frames t1 t2 oldTheta h0)
  let ?h = "h0 @ [h0 ! oldTheta]"
  have v: "ext h0 (snd (unify_variable frames x y (length h0) ?h))" for x y
    using unify_variable_frame frame_fresh_ext by blast
  have e: "ext h0 ?h" by (rule ext_append)
  show ?case
  proof (cases "Predicate_eq t1 t2")
    case True
    then show ?thesis by (simp add: unify.simps dict_copy_def e)
  next
    case ne: False
    show ?thesis
    proof (cases "type t1 = VARIABLE_TYPE")
      case True
      with ne show ?thesis
        using ext_post [OF v [of t1 t2]] by (simp add: unify.simps [of frames t1 t2] dict_copy_def)
    next
      case n1: False
      show ?thesis
      proof (cases "type t2 = VARIABLE_TYPE")
        case True
        with ne n1 show ?thesis
          using ext_post [OF v [of t2 t1]] by (simp add: unify.simps [of frames t1 t2] dict_copy_def)
      next
        case n2: False
        show ?thesis
        proof (cases "type t2 = FUNCTION_TYPE \<and> type t1 = FUNCTION_TYPE")
          case False
          with ne n1 n2 show ?thesis
            using e by (auto simp add: unify.simps [of frames t1 t2] dict_copy_def)
        next
          case f: True
          have o: "ext h0 (snd (unify_outer frames (terms t1) (terms t2) (length h0) ?h))"
            if i: "str_index (name t1) CHR ''('' = Inr i1" "str_index (name t2) CHR ''('' = Inr i2"
              "take i1 (name t1) = take i2 (name t2)" for i1 i2
          proof -
            have "ext ?h (snd (unify_outer frames (terms t1) (terms t2) (length h0) ?h))"
              by (rule "1.IH"(3) [of "dict_copy oldTheta h0" "length h0" ?h i1 i2])
                 (use ne n1 n2 f i in \<open>simp_all add: dict_copy_def\<close>)
            with e show ?thesis by (rule ext_trans)
          qed
          show ?thesis
          proof (cases "str_index (name t1) CHR ''('' ")
            case (Inl e1)
            with ne n1 n2 f e show ?thesis
              by (simp add: unify.simps [of frames t1 t2] dict_copy_def)
          next
            case i1: (Inr i1)
            show ?thesis
            proof (cases "str_index (name t2) CHR ''('' ")
              case (Inl e2)
              with i1 ne n1 n2 f e show ?thesis
                by (simp add: unify.simps [of frames t1 t2] dict_copy_def)
            next
              case i2: (Inr i2)
              show ?thesis
              proof (cases "take i1 (name t1) = take i2 (name t2)")
                case True
                from o [OF i1 i2 True] True i1 i2 ne n1 n2 f show ?thesis
                  by (simp add: unify.simps [of frames t1 t2] dict_copy_def)
              next
                case False
                with i1 i2 ne n1 n2 f e show ?thesis
                  by (simp add: unify.simps [of frames t1 t2] dict_copy_def)
              qed
            qed
          qed
        qed
      qed
    qed
  qed
next
  case (2 frames variable term2 theta h)
  show ?case by (rule unify_variable_frame)
next
  case (3 frames ts2 theta h)
  then show ?case by (simp add: ext_refl)
next
  case (4 frames termOuter rest ts2 theta h)
  obtain x y where xy: "unify_inner frames termOuter ts2 theta h = (x, y)"
    by (cases "unify_inner frames termOuter ts2 theta h")
  have hy: "ext h y" using "4.IH"(1) xy by simp
  show ?case
  proof (cases x)
    case (Inl e)
    with xy hy show ?thesis by simp
  next
    case (Inr b)
    show ?thesis
    proof (cases b)
      case None
      with Inr xy hy show ?thesis by simp
    next
      case (Some x2)
      have "ext y (snd (unify_outer frames rest ts2 x2 y))"
        by (rule "4.IH"(2) [OF xy [symmetric] Inr Some])
      with hy have "ext h (snd (unify_outer frames rest ts2 x2 y))" by (rule ext_trans)
      with Inr Some xy show ?thesis by simp
    qed
  qed
next
  case (5 frames termOuter theta h)
  then show ?case by (simp add: ext_refl)
next
  case (6 frames termOuter termInner rest theta h)
  obtain x y where xy: "unify frames termInner termOuter theta h = (x, y)"
    by (cases "unify frames termInner termOuter theta h")
  have hy: "ext h y" using "6.IH"(1) xy by simp
  show ?case
  proof (cases x)
    case (Inl e)
    with xy hy show ?thesis by simp
  next
    case (Inr b)
    show ?thesis
    proof (cases b)
      case None
      with Inr xy hy show ?thesis by simp
    next
      case (Some x2)
      obtain xb ya where d: "dict_or theta x2 y = (xb, ya)"
        by (cases "dict_or theta x2 y")
      have ya: "ext y ya" using d by (auto simp: dict_or_def ext_append)
      have "ext ya (snd (unify_inner frames termOuter rest xb ya))"
        by (rule "6.IH"(2) [OF xy [symmetric] Inr Some refl d [symmetric]])
      with hy ya have "ext h (snd (unify_inner frames termOuter rest xb ya))"
        by (blast intro: ext_trans)
      with Inr Some xy d show ?thesis by simp
    qed
  qed
qed


text \<open>
  C10 (the claim: \<^verbatim>\<open>unify\<close> never mutates the dict passed in by the caller). Whatever the
  outcome (a dict, \<^verbatim>\<open>None\<close> or an exception), the store after the call starts with the
  store before it: every dict that existed, \<^verbatim>\<open>oldTheta\<close> among them, holds the bindings it
  held; \<^verbatim>\<open>unify\<close> writes to dicts it has allocated only.
\<close>

theorem unify_preserves_oldTheta:
  "take (length h) (snd (unify frames t1 t2 oldTheta h)) = h
   \<and> (oldTheta < length h \<longrightarrow> snd (unify frames t1 t2 oldTheta h) ! oldTheta = h ! oldTheta)"
proof -
  have e: "take (length h) (snd (unify frames t1 t2 oldTheta h)) = h"
    using unify_ext_all(1) [of h frames t1 t2 oldTheta] by (simp add: ext_def)
  have "snd (unify frames t1 t2 oldTheta h) ! oldTheta = h ! oldTheta" if "oldTheta < length h"
    using that nth_take [of oldTheta "length h" "snd (unify frames t1 t2 oldTheta h)"] e by simp
  with e show ?thesis by simp
qed

lemma unify_pairs_append:
  "unify_pairs frames (ps @ qs) theta h =
     (case unify_pairs frames ps theta h of
        (Inl e, h') \<Rightarrow> (Inl e, h')
      | (Inr None, h') \<Rightarrow> (Inr None, h')
      | (Inr (Some theta'), h') \<Rightarrow> unify_pairs frames qs theta' h')"
proof (induction ps arbitrary: theta h)
  case Nil
  then show ?case by simp
next
  case (Cons p ps)
  obtain termInner termOuter where p: "p = (termInner, termOuter)" by (cases p)
  show ?case
    by (simp add: p Cons.IH split: prod.splits sum.splits option.splits)
qed

lemma unify_inner_pairs:
  "unify_inner frames termOuter ts theta h =
     unify_pairs frames (map (\<lambda>termInner. (termInner, termOuter)) ts) theta h"
  by (induction ts arbitrary: theta h)
     (simp_all split: prod.splits sum.splits option.splits)

lemma unify_outer_pairs:
  "unify_outer frames ts1 ts2 theta h =
     unify_pairs frames
       (concat (map (\<lambda>termOuter. map (\<lambda>termInner. (termInner, termOuter)) ts2) ts1)) theta h"
  by (induction ts1 arbitrary: theta h)
     (simp_all add: unify_pairs_append unify_inner_pairs split: prod.splits sum.splits option.splits)

text \<open>
  C1 (the claim: two Function terms unify only if names and arities are identical, and the
  arguments are then unified pairwise by position). As stated it fails: \<^verbatim>\<open>f(a)\<close> and
  \<^verbatim>\<open>f(a,a)\<close>, of arities 1 and 2, unify. The arities are never compared, and the
  iterations unify every argument of \<^verbatim>\<open>t2\<close> against every argument of \<^verbatim>\<open>t1\<close>, as the comment
  in the source says.
\<close>

theorem unify_function_arity_counterexample:
  "length (terms (Predicate ''f(a)'' False [Constant ''a''] FUNCTION_TYPE ''f''))
     \<noteq> length (terms (Predicate ''f(a,a)'' False [Constant ''a'', Constant ''a''] FUNCTION_TYPE ''f''))
   \<and> run_unify 1000 (Predicate ''f(a)'' False [Constant ''a''] FUNCTION_TYPE ''f'')
      (Predicate ''f(a,a)'' False [Constant ''a'', Constant ''a''] FUNCTION_TYPE ''f'') Map.empty
     = Inr (Some Map.empty)"
  by (simp add: run_unify_def unify.simps unify_variable_eq dict_copy_def dict_set_def
      dict_or_def Variable_def Constant_def Predicate_eq_def has_key_def)

text \<open>
  C1 as amended: for two Function terms that are not \<^verbatim>\<open>==\<close> and whose names hold a
  parenthesis, \<^verbatim>\<open>unify\<close> works on a copy of the substitution and returns \<^verbatim>\<open>None\<close> when the
  names before the parenthesis differ. When they agree, whatever the two arities, it goes
  through all pairs of an argument of \<^verbatim>\<open>t1\<close> and an argument of \<^verbatim>\<open>t2\<close> (the arguments of
  \<^verbatim>\<open>t1\<close> in order, and for each of them all arguments of \<^verbatim>\<open>t2\<close> in order), calling
  \<^verbatim>\<open>unify(termInner, termOuter, theta)\<close> on the substitution accumulated so far, which
  becomes \<^verbatim>\<open>theta | result\<close> after each success: the first pair that returns \<^verbatim>\<open>None\<close> or
  raises ends \<^verbatim>\<open>unify\<close> with \<^verbatim>\<open>None\<close> or with that exception, and when every pair has
  succeeded the accumulated substitution is returned.
\<close>

theorem unify_functions_all_pairs:
  assumes "type t1 = FUNCTION_TYPE" "type t2 = FUNCTION_TYPE" "\<not> Predicate_eq t1 t2"
    and "function_name t1 = Inr n1" "function_name t2 = Inr n2"
  shows "unify frames t1 t2 oldTheta h =
     (if n1 \<noteq> n2 then (Inr None, h @ [h ! oldTheta])
      else unify_pairs frames (argument_pairs t1 t2) (length h) (h @ [h ! oldTheta]))"
  using assms
  by (auto simp: unify.simps [of frames t1 t2] dict_copy_def function_name_def argument_pairs_def
      unify_outer_pairs split: sum.splits)

theorem unify_functions_all_pairs_witness:
  "unify 1000 (Predicate ''f(x,y)'' False [Variable ''x'', Variable ''y''] FUNCTION_TYPE ''f'')
      (Predicate ''f(a,b)'' False [Constant ''a'', Constant ''b''] FUNCTION_TYPE ''f'') 0 [Map.empty]
   = unify_pairs 1000
       [(Constant ''a'', Variable ''x''), (Constant ''b'', Variable ''x''),
        (Constant ''a'', Variable ''y''), (Constant ''b'', Variable ''y'')]
       1 [Map.empty, Map.empty]"
proof -
  let ?t1 = "Predicate ''f(x,y)'' False [Variable ''x'', Variable ''y''] FUNCTION_TYPE ''f''"
  let ?t2 = "Predicate ''f(a,b)'' False [Constant ''a'', Constant ''b''] FUNCTION_TYPE ''f''"
  have 1: "type ?t1 = FUNCTION_TYPE" and 2: "type ?t2 = FUNCTION_TYPE" by simp_all
  have 3: "\<not> Predicate_eq ?t1 ?t2" by (simp add: Predicate_eq_def)
  have 4: "function_name ?t1 = Inr ''f''" and 5: "function_name ?t2 = Inr ''f''"
    by (simp_all add: function_name_def)
  from unify_functions_all_pairs [OF 1 2 3 4 5, of 1000 0 "[Map.empty]"] show ?thesis
    by (simp add: argument_pairs_def)
qed

lemma map_add_self: "m ++ m = m"
  by (rule ext) (simp add: map_add_def split: option.splits)

text \<open>
  C2 (the claim: an unbound Variable unified against a term that contains it fails the
  occurs-check). As stated it fails: there is no occurs-check, and
  \<^verbatim>\<open>unify(Variable("x"), Function("f",[Variable("x")]), {})\<close> returns \<^verbatim>\<open>{x: "f(x)"}\<close>.
\<close>

theorem unify_occurs_check_counterexample:
  "run_unify 1000 (Variable ''x'') (Predicate ''f(x)'' False [Variable ''x''] FUNCTION_TYPE ''f'') Map.empty
     = Inr (Some [''x'' \<mapsto> ''f(x)''])"
  by (simp add: run_unify_def unify.simps unify_variable_eq dict_copy_def dict_set_def
      dict_or_def Variable_def Constant_def Predicate_eq_def has_key_def getFinalForm_numeral)

text \<open>
  C2 as amended: unifying a Variable against a term that is not \<^verbatim>\<open>==\<close> to it, when neither
  the variable's name nor the term's name has a binding, returns the substitution extended
  with the variable's name bound to the term's name, whether or not the term contains the
  variable.
\<close>

theorem unify_unbound_variable_binds:
  assumes "type v = VARIABLE_TYPE" "\<not> Predicate_eq v t"
    "\<not> has_key \<theta> (name v)" "\<not> has_key \<theta> (name t)"
  shows "run_unify frames v t \<theta> = Inr (Some (\<theta>(name v \<mapsto> name t)))"
  using assms
  by (simp add: run_unify_def unify.simps [of frames v t] unify_variable_eq dict_copy_def
      dict_set_def dict_or_def map_add_self)

theorem unify_unbound_variable_binds_witness:
  "type (Variable ''x'') = VARIABLE_TYPE
   \<and> \<not> Predicate_eq (Variable ''x'') (Predicate ''f(x)'' False [Variable ''x''] FUNCTION_TYPE ''f'')
   \<and> \<not> has_key Map.empty (name (Variable ''x''))
   \<and> \<not> has_key Map.empty (name (Predicate ''f(x)'' False [Variable ''x''] FUNCTION_TYPE ''f''))
   \<and> run_unify 1000 (Variable ''x'') (Predicate ''f(x)'' False [Variable ''x''] FUNCTION_TYPE ''f'')
        Map.empty = Inr (Some [''x'' \<mapsto> ''f(x)''])"
proof -
  let ?t = "Predicate ''f(x)'' False [Variable ''x''] FUNCTION_TYPE ''f''"
  have 1: "type (Variable ''x'') = VARIABLE_TYPE" by (simp add: Variable_def)
  have 2: "\<not> Predicate_eq (Variable ''x'') ?t" by (simp add: Predicate_eq_def Variable_def)
  have 3: "\<not> has_key Map.empty (name (Variable ''x''))" by (simp add: has_key_def)
  have 4: "\<not> has_key Map.empty (name ?t)" by (simp add: has_key_def)
  from unify_unbound_variable_binds [OF 1 2 3 4, of 1000] 1 2 3 4 show ?thesis
    by (simp add: Variable_def)
qed

text \<open>
  C8 (the claim: \<^verbatim>\<open>unify\<close> and \<^verbatim>\<open>unify_predicates\<close> return a substitution or \<^verbatim>\<open>None\<close> and never
  raise, also when the variable unified already has a binding). The code raises at the
  first bound variable: \<^verbatim>\<open>unify_variable\<close> calls \<^verbatim>\<open>variable.__copy__()\<close>, which raises
  TypeError. So do \<^verbatim>\<open>unify(Variable x, Constant b, {x: a})\<close> and the literals \<^verbatim>\<open>P(x,x)\<close>,
  \<^verbatim>\<open>!P(a,b)\<close>.
\<close>

theorem unify_bound_variable_raises:
  "run_unify 1000 (Variable ''x'') (Constant ''b'') [''x'' \<mapsto> ''a''] = Inl TypeError
   \<and> unify_predicates 1000
        (Predicate ''P'' False [Variable ''x'', Variable ''x''] PREDICATE_TYPE ''P'')
        (Predicate ''P'' True [Constant ''a'', Constant ''b''] PREDICATE_TYPE ''P'')
      = Inl TypeError"
  by (simp add: run_unify_def unify_predicates_def upt_rec unify.simps unify_variable_eq dict_copy_def dict_set_def
      dict_or_def Variable_def Constant_def Predicate_eq_def has_key_def getFinalForm_numeral)

theorem unify_preserves_oldTheta_witness:
  "(0::nat) < length [Map.empty :: theta]
   \<and> snd (unify 1000 (Variable ''x'') (Constant ''a'') 0 [Map.empty]) ! 0 = Map.empty"
  using unify_preserves_oldTheta [of "[Map.empty]" 1000 "Variable ''x''" "Constant ''a''" 0]
  by simp

section \<open>Following the bindings of a variable\<close>

lemma getFinalForm_reaches:
  "n < frames \<Longrightarrow> \<theta> ((binding_step \<theta> ^^ n) v) = None \<Longrightarrow>
   \<forall>m<n. \<theta> ((binding_step \<theta> ^^ m) v) \<noteq> None \<Longrightarrow>
   getFinalForm frames v \<theta> = Inr ((binding_step \<theta> ^^ n) v)"
proof (induction n arbitrary: v frames)
  case 0
  then obtain f where "frames = Suc f" by (cases frames) auto
  with 0 show ?case by simp
next
  case (Suc n)
  from Suc.prems(1) obtain f where f: "frames = Suc f" "n < f" by (cases frames) auto
  from Suc.prems(3) have "\<theta> v \<noteq> None" by force
  then obtain t where t: "\<theta> v = Some t" by auto
  then have s: "binding_step \<theta> v = t" by (simp add: binding_step_def)
  have 1: "\<theta> ((binding_step \<theta> ^^ n) t) = None"
    using Suc.prems(2) s by (simp add: funpow_swap1)
  have 2: "\<forall>m<n. \<theta> ((binding_step \<theta> ^^ m) t) \<noteq> None"
  proof (intro allI impI)
    fix m assume "m < n"
    then have "\<theta> ((binding_step \<theta> ^^ Suc m) v) \<noteq> None" using Suc.prems(3) by blast
    then show "\<theta> ((binding_step \<theta> ^^ m) t) \<noteq> None" using s by (simp add: funpow_swap1)
  qed
  from Suc.IH [OF f(2) 1 2] t s f(1) show ?case
    by (simp add: funpow_swap1)
qed

lemma getFinalForm_exhausts:
  "\<forall>n<frames. \<theta> ((binding_step \<theta> ^^ n) v) \<noteq> None \<Longrightarrow>
   getFinalForm frames v \<theta> = Inl RecursionError"
proof (induction frames arbitrary: v)
  case 0
  then show ?case by simp
next
  case (Suc frames)
  from Suc.prems have "\<theta> ((binding_step \<theta> ^^ 0) v) \<noteq> None" by blast
  then obtain t where t: "\<theta> v = Some t" by auto
  then have s: "binding_step \<theta> v = t" by (simp add: binding_step_def)
  have "\<forall>n<frames. \<theta> ((binding_step \<theta> ^^ n) t) \<noteq> None"
  proof (intro allI impI)
    fix n assume "n < frames"
    then have "Suc n < Suc frames" by simp
    with Suc.prems have "\<theta> ((binding_step \<theta> ^^ Suc n) v) \<noteq> None" by blast
    then show "\<theta> ((binding_step \<theta> ^^ n) t) \<noteq> None" using s by (simp add: funpow_swap1)
  qed
  from Suc.IH [OF this] t show ?case by simp
qed

lemma binding_step_self_loop: "(binding_step [''x'' \<mapsto> ''x''] ^^ n) ''x'' = ''x''"
  by (induction n) (simp_all add: binding_step_def)

lemma getFinalForm_self_loop: "getFinalForm frames ''x'' [''x'' \<mapsto> ''x''] = Inl RecursionError"
  by (rule getFinalForm_exhausts) (simp add: binding_step_self_loop)

text \<open>
  C4 (the claim: following the bindings detects a binding cycle and fails for that
  unification attempt instead of recursing without bound). As stated it fails: under
  \<^verbatim>\<open>{x: "x"}\<close> the lookup of \<^verbatim>\<open>x\<close> recurses until the stack is full and raises
  RecursionError, and \<^verbatim>\<open>unify\<close> of \<^verbatim>\<open>x\<close> with a constant raises it too, where a failed
  attempt returns \<^verbatim>\<open>None\<close>.
\<close>

theorem getFinalForm_cycle_counterexample:
  "getFinalForm 1000 ''x'' [''x'' \<mapsto> ''x''] = Inl RecursionError
   \<and> run_unify 1000 (Variable ''x'') (Constant ''b'') [''x'' \<mapsto> ''x''] = Inl RecursionError"
  by (simp add: getFinalForm_self_loop run_unify_def unify.simps unify_variable_eq dict_copy_def
      Variable_def Constant_def Predicate_eq_def has_key_def)

text \<open>
  C4 as amended: \<^verbatim>\<open>getFinalForm\<close> keeps no record of the names seen. With room for
  \<open>frames\<close> nested calls, it returns the first name without binding on the chain of
  bindings from the name it is given when that name comes after fewer than \<open>frames\<close>
  bindings; in every other case, a binding cycle or an acyclic chain of \<open>frames\<close> bindings
  or more, it raises RecursionError.
\<close>

theorem getFinalForm_returns_first_unbound:
  "getFinalForm frames v \<theta> =
     (if \<exists>n<frames. \<theta> ((binding_step \<theta> ^^ n) v) = None
      then Inr ((binding_step \<theta> ^^ (LEAST n. \<theta> ((binding_step \<theta> ^^ n) v) = None)) v)
      else Inl RecursionError)"
proof (cases "\<exists>n<frames. \<theta> ((binding_step \<theta> ^^ n) v) = None")
  case True
  then obtain k where k: "k < frames" "\<theta> ((binding_step \<theta> ^^ k) v) = None" by blast
  let ?n = "LEAST n. \<theta> ((binding_step \<theta> ^^ n) v) = None"
  from k(2) have 1: "\<theta> ((binding_step \<theta> ^^ ?n) v) = None" by (rule LeastI)
  have 2: "\<forall>m<?n. \<theta> ((binding_step \<theta> ^^ m) v) \<noteq> None"
    using not_less_Least by blast
  from k have "?n \<le> k" by (simp add: Least_le)
  with k(1) have 3: "?n < frames" by simp
  from getFinalForm_reaches [OF 3 1 2] True show ?thesis by simp
next
  case False
  then have "\<forall>n<frames. \<theta> ((binding_step \<theta> ^^ n) v) \<noteq> None" by simp
  then have "getFinalForm frames v \<theta> = Inl RecursionError"
    by (rule getFinalForm_exhausts)
  with False show ?thesis by simp
qed

section \<open>Resolution of two clauses\<close>

text \<open>
  C7 (the claim: the resolvent keeps every literal of both parents but the two matched
  occurrences, matched by identity and not by name). After a unification the code skips
  every literal whose name is the name of the matched literal: from \<^verbatim>\<open>P(x) P(y)\<close> and
  \<^verbatim>\<open>!P(a)\<close> it derives the clause without literals, twice, where the claim keeps
  \<^verbatim>\<open>P(y)\<close> (and \<^verbatim>\<open>P(x)\<close> for the second pair). The branch for literals without terms
  does compare by identity.
\<close>

theorem resolve_drops_same_name_literal:
  "resolve 1000 {''x'', ''y''} {''a''}
     (Clause ''P(x) P(y)'' [(0, Predicate ''P'' False [Variable ''x''] PREDICATE_TYPE ''P''),
                            (1, Predicate ''P'' False [Variable ''y''] PREDICATE_TYPE ''P'')])
     (Clause ''!P(a)'' [(2, Predicate ''P'' True [Constant ''a''] PREDICATE_TYPE ''P'')]) 3
   = Inr ([Clause [] [], Clause [] [],
      Clause ''P(x) P(y)'' [(0, Predicate ''P'' False [Variable ''x''] PREDICATE_TYPE ''P''),
                            (1, Predicate ''P'' False [Variable ''y''] PREDICATE_TYPE ''P'')],
      Clause ''!P(a)'' [(2, Predicate ''P'' True [Constant ''a''] PREDICATE_TYPE ''P'')]], 3)"
  by (simp add: unify.simps unify_variable_eq dict_copy_def dict_set_def
      dict_or_def Variable_def Constant_def Predicate_eq_def has_key_def getFinalForm_numeral
      unify_predicates_def upt_rec resolve_def resolve_pair_def combine_nullary_def name_piece_def
      strip_def slice_def whitespace_def Let_def)

section \<open>Applying a substitution twice\<close>









section \<open>Rounds of the saturation loop\<close>

lemma Clause_eq_refl: "Clause_eq c c" by (simp add: Clause_eq_iff Predicate_eq_def)
lemma Clause_eq_sym: "Clause_eq c d \<Longrightarrow> Clause_eq d c"
  by (auto simp: Clause_eq_iff Predicate_eq_def)
lemma Clause_eq_trans: "Clause_eq c d \<Longrightarrow> Clause_eq d e \<Longrightarrow> Clause_eq c e"
  by (auto simp: Clause_eq_iff Predicate_eq_def)

lemma contains_iff: "contains s x \<longleftrightarrow> (\<exists>y \<in> set s. Clause_eq y x)"
  by (simp add: contains_def list_ex_iff)

lemma contains_cong: "contains s x \<Longrightarrow> Clause_eq x y \<Longrightarrow> contains s y"
  by (auto simp: contains_iff intro: Clause_eq_trans)

lemma contains_set_add: "contains (set_add s x) c \<longleftrightarrow> contains s c \<or> Clause_eq x c"
  by (auto simp: set_add_def contains_iff intro: Clause_eq_trans)

lemma contains_set_union: "contains (set_union a b) c \<longleftrightarrow> contains a c \<or> contains b c"
  unfolding set_union_def
proof (induction b arbitrary: a)
  case Nil
  then show ?case by (simp add: contains_iff)
next
  case (Cons x b)
  show ?case by (simp add: Cons.IH contains_set_add) (auto simp: contains_iff)
qed

lemma contains_set_of: "contains (set_of xs) c \<longleftrightarrow> contains xs c"
  by (simp add: set_of_def contains_set_union) (simp add: contains_iff)

lemma issubset_iff: "issubset a b \<longleftrightarrow> (\<forall>c. contains a c \<longrightarrow> contains b c)"
proof
  assume "issubset a b"
  then show "\<forall>c. contains a c \<longrightarrow> contains b c"
    by (auto simp: issubset_def list_all_iff contains_iff intro: Clause_eq_trans)
next
  assume h: "\<forall>c. contains a c \<longrightarrow> contains b c"
  have "contains a x" if "x \<in> set a" for x
    using that Clause_eq_refl by (auto simp: contains_iff)
  with h show "issubset a b" by (simp add: issubset_def list_all_iff)
qed


lemma contains_append: "contains (a @ b) c \<longleftrightarrow> contains a c \<or> contains b c"
  by (auto simp: contains_iff)

lemma contains_add_resolvents:
  "contains (add_resolvents new_clause rss) c \<longleftrightarrow> contains new_clause c \<or> contains (concat rss) c"
  unfolding add_resolvents_def
proof (induction rss arbitrary: new_clause)
  case Nil
  then show ?case by (simp add: contains_iff)
next
  case (Cons rs rss)
  show ?case
    by (auto simp: Cons.IH contains_set_union contains_set_of contains_append)
qed

lemma round_state_invariant:
  "round_state frames iter variables constants clauses nxt0 st \<Longrightarrow> issubset (fst (snd st)) (fst st)"
proof (induction rule: round_state.induct)
  case first
  then show ?case by (simp add: issubset_def)
next
  case (later st st')
  obtain cur new nxt where st: "st = (cur, new, nxt)" by (cases st)
  from later.hyps(2) st obtain new' nxt' where "st' = (set_union cur new', new', nxt')"
    by (auto simp: resolver_round_def split: sum.splits prod.splits if_splits)
  then show ?case by (simp add: issubset_iff contains_set_union)
qed

lemma has_empty_clause_iff: "has_empty_clause rs \<longleftrightarrow> (\<exists>c \<in> set rs. empty_clause c)"
  by (auto simp: has_empty_clause_def contains_iff Clause_eq_iff empty_clause_def)

lemma list_ex_has_empty_clause:
  "list_ex has_empty_clause rss \<longleftrightarrow> (\<exists>c \<in> set (concat rss). empty_clause c)"
  by (auto simp: list_ex_iff has_empty_clause_iff)

lemma same_clause_eq: "same_clause c d \<Longrightarrow> Clause_eq c d"
  by (auto simp: same_clause_def Clause_eq_iff list_all_iff)

lemma differs_before_last_iff: "differs_before_last c d \<longleftrightarrow> \<not> Clause_eq c d"
  by (auto simp: differs_before_last_def Clause_eq_iff list_ex_iff)

lemma resolver_pairs_prefix:
  "round_resolvents frames variables constants ps1 nxt = Inr (rss1, n1) \<Longrightarrow>
   \<not> list_ex has_empty_clause rss1 \<Longrightarrow>
   resolver_pairs frames variables constants (ps1 @ ps2) (new_clause, nxt) =
     resolver_pairs frames variables constants ps2 (add_resolvents new_clause rss1, n1)"
proof (induction ps1 arbitrary: new_clause nxt rss1)
  case Nil
  then show ?case by (simp add: add_resolvents_def)
next
  case (Cons p ps)
  obtain c1 c2 where p: "p = (c1, c2)" by (cases p)
  from Cons.prems(1) p obtain resolvents m rss' where
    r: "resolve frames variables constants c1 c2 nxt = Inr (resolvents, m)"
    and rr: "round_resolvents frames variables constants ps m = Inr (rss', n1)"
    and rss: "rss1 = resolvents # rss'"
    by (auto split: sum.splits prod.splits)
  from Cons.prems(2) rss have ne: "\<not> has_empty_clause resolvents" "\<not> list_ex has_empty_clause rss'"
    by simp_all
  show ?case
    using Cons.IH [OF rr ne(2), of "set_union new_clause (set_of resolvents)"] p r rss ne(1)
    by (simp add: has_empty_clause_def add_resolvents_def)
qed

lemma resolver_pairs_all:
  "round_resolvents frames variables constants ps nxt = Inr (rss, nxt') \<Longrightarrow>
   \<not> list_ex has_empty_clause rss \<Longrightarrow>
   resolver_pairs frames variables constants ps (new_clause, nxt) =
     Inr (Inr (add_resolvents new_clause rss, nxt'))"
  using resolver_pairs_prefix [of frames variables constants ps nxt rss nxt' "[]" new_clause]
  by simp

lemma set_set_add: "set (set_add s x) \<subseteq> insert x (set s)" "set s \<subseteq> set (set_add s x)"
  by (auto simp: set_add_def)

lemma set_set_union_lower: "set a \<subseteq> set (set_union a b)"
  unfolding set_union_def
proof (induction b arbitrary: a)
  case Nil
  then show ?case by simp
next
  case (Cons x b)
  have "set a \<subseteq> set (set_add a x)" by (rule set_set_add)
  also have "\<dots> \<subseteq> set (fold (\<lambda>x s. set_add s x) b (set_add a x))" by (rule Cons.IH)
  finally show ?case by simp
qed

lemma contains_mono: "set a \<subseteq> set b \<Longrightarrow> contains a x \<Longrightarrow> contains b x"
  by (auto simp: contains_iff)

lemma set_set_union_upper: "set (set_union a b) \<subseteq> set a \<union> {x \<in> set b. \<not> contains a x}"
  unfolding set_union_def
proof (induction b arbitrary: a)
  case Nil
  then show ?case by simp
next
  case (Cons x b)
  have 1: "set (fold (\<lambda>x s. set_add s x) b (set_add a x))
      \<subseteq> set (set_add a x) \<union> {y \<in> set b. \<not> contains (set_add a x) y}"
    by (rule Cons.IH)
  have 2: "set (set_add a x) \<subseteq> set a \<union> {y \<in> set (x # b). \<not> contains a y}"
    by (auto simp: set_add_def)
  have 3: "{y \<in> set b. \<not> contains (set_add a x) y} \<subseteq> {y \<in> set (x # b). \<not> contains a y}"
    using contains_mono [OF set_set_add(2) [of a x]] by auto
  from 1 2 3 show ?case by auto
qed

lemma set_set_of: "set (set_of xs) \<subseteq> set xs"
  using set_set_union_upper [of "[]" xs] by (auto simp: set_of_def)

lemma set_add_resolvents: "set (add_resolvents new_clause rss) \<subseteq> set new_clause \<union> set (concat rss)"
  unfolding add_resolvents_def
proof (induction rss arbitrary: new_clause)
  case Nil
  then show ?case by simp
next
  case (Cons rs rss)
  have "set (fold (\<lambda>resolvents n. set_union n (set_of resolvents)) rss (set_union new_clause (set_of rs)))
      \<subseteq> set (set_union new_clause (set_of rs)) \<union> set (concat rss)"
    by (rule Cons.IH)
  moreover have "set (set_union new_clause (set_of rs)) \<subseteq> set new_clause \<union> set rs"
    using set_set_union_upper [of new_clause "set_of rs"] set_set_of [of rs] by auto
  ultimately show ?case by auto
qed

lemma contains_self: "x \<in> set s \<Longrightarrow> contains s x"
  using Clause_eq_refl by (auto simp: contains_iff)

text \<open>
  C3 (the claim: in every round, the empty clause among the round's resolvents ends the run
  with \<^verbatim>\<open>no\<close>; resolvents that are all among the known clauses end it with \<^verbatim>\<open>yes\<close>; otherwise
  the resolvents are added to the clause set and another round runs). As stated it fails,
  in both directions. On the clauses \<^verbatim>\<open>P\<close>, \<^verbatim>\<open>!Q\<close>, \<^verbatim>\<open>Q P\<close> the only resolvent of the first
  round has the literals of the known clause \<^verbatim>\<open>P\<close> and the round does not end with \<^verbatim>\<open>yes\<close>:
  the resolvent bears the name \<^verbatim>\<open>"P "\<close>, and clauses of different names are different
  elements of the sets. On the clauses \<^verbatim>\<open>!\<close>, \<^verbatim>\<open>!X !B\<close>, \<^verbatim>\<open>X\<close>, \<^verbatim>\<open>B\<close> the resolvents \<^verbatim>\<open>!B\<close> and
  \<^verbatim>\<open>!X\<close> are not among the known clauses, and the run ends with \<^verbatim>\<open>yes\<close> in the first round:
  both bear the name \<^verbatim>\<open>"!"\<close> of the first clause, have one literal as it has, and
  \<^verbatim>\<open>Clause.__eq__\<close> does not compare the last literal.
\<close>

theorem resolver_round_counterexample:
  "resolver_round 1000 {} {}
     [Clause ''P'' [(0, Predicate ''P'' False [] PREDICATE_TYPE ''P'')],
      Clause ''!Q'' [(1, Predicate ''Q'' True [] PREDICATE_TYPE ''Q'')],
      Clause ''Q P'' [(2, Predicate ''Q'' False [] PREDICATE_TYPE ''Q''),
                      (3, Predicate ''P'' False [] PREDICATE_TYPE ''P'')]]
     ([Clause ''P'' [(0, Predicate ''P'' False [] PREDICATE_TYPE ''P'')],
       Clause ''!Q'' [(1, Predicate ''Q'' True [] PREDICATE_TYPE ''Q'')],
       Clause ''Q P'' [(2, Predicate ''Q'' False [] PREDICATE_TYPE ''Q''),
                       (3, Predicate ''P'' False [] PREDICATE_TYPE ''P'')]], [], 4)
   = Inr (Inr
     ([Clause ''P'' [(0, Predicate ''P'' False [] PREDICATE_TYPE ''P'')],
       Clause ''!Q'' [(1, Predicate ''Q'' True [] PREDICATE_TYPE ''Q'')],
       Clause ''Q P'' [(2, Predicate ''Q'' False [] PREDICATE_TYPE ''Q''),
                       (3, Predicate ''P'' False [] PREDICATE_TYPE ''P'')],
       Clause ''P '' [(3, Predicate ''P'' False [] PREDICATE_TYPE ''P'')]],
      [Clause ''P'' [(0, Predicate ''P'' False [] PREDICATE_TYPE ''P'')],
       Clause ''!Q'' [(1, Predicate ''Q'' True [] PREDICATE_TYPE ''Q'')],
       Clause ''Q P'' [(2, Predicate ''Q'' False [] PREDICATE_TYPE ''Q''),
                       (3, Predicate ''P'' False [] PREDICATE_TYPE ''P'')],
       Clause ''P '' [(3, Predicate ''P'' False [] PREDICATE_TYPE ''P'')]], 4))
   \<and> map snd (predicates (Clause ''P '' [(3, Predicate ''P'' False [] PREDICATE_TYPE ''P'')]))
     = map snd (predicates (Clause ''P'' [(0, Predicate ''P'' False [] PREDICATE_TYPE ''P'')]))
   \<and> resolve 1000 {} {}
       (Clause ''!X !B'' [(1, Predicate ''X'' True [] PREDICATE_TYPE ''X''),
                          (2, Predicate ''B'' True [] PREDICATE_TYPE ''B'')])
       (Clause ''X'' [(3, Predicate ''X'' False [] PREDICATE_TYPE ''X'')]) 5
     = Inr ([Clause ''!'' [(2, Predicate ''B'' True [] PREDICATE_TYPE ''B'')],
             Clause ''!X !B'' [(1, Predicate ''X'' True [] PREDICATE_TYPE ''X''),
                               (2, Predicate ''B'' True [] PREDICATE_TYPE ''B'')],
             Clause ''X'' [(3, Predicate ''X'' False [] PREDICATE_TYPE ''X'')]], 5)
   \<and> resolver 1000 (\<lambda>s. s) {} {}
       [Clause ''!'' [(0, Predicate [] True [] PREDICATE_TYPE [])],
        Clause ''!X !B'' [(1, Predicate ''X'' True [] PREDICATE_TYPE ''X''),
                          (2, Predicate ''B'' True [] PREDICATE_TYPE ''B'')],
        Clause ''X'' [(3, Predicate ''X'' False [] PREDICATE_TYPE ''X'')],
        Clause ''B'' [(4, Predicate ''B'' False [] PREDICATE_TYPE ''B'')]] 5
     = Some (Inr Yes)"
proof -
  define p0 where "p0 = Clause ''P'' [(0, Predicate ''P'' False [] PREDICATE_TYPE ''P'')]"
  define p1 where "p1 = Clause ''!Q'' [(1, Predicate ''Q'' True [] PREDICATE_TYPE ''Q'')]"
  define p2 where "p2 = Clause ''Q P'' [(2, Predicate ''Q'' False [] PREDICATE_TYPE ''Q''),
                      (3, Predicate ''P'' False [] PREDICATE_TYPE ''P'')]"
  define rP where "rP = Clause ''P '' [(3, Predicate ''P'' False [] PREDICATE_TYPE ''P'')]"
  define k0 where "k0 = Clause ''!'' [(0, Predicate [] True [] PREDICATE_TYPE [])]"
  define k1 where "k1 = Clause ''!X !B'' [(1, Predicate ''X'' True [] PREDICATE_TYPE ''X''),
                          (2, Predicate ''B'' True [] PREDICATE_TYPE ''B'')]"
  define k2 where "k2 = Clause ''X'' [(3, Predicate ''X'' False [] PREDICATE_TYPE ''X'')]"
  define k3 where "k3 = Clause ''B'' [(4, Predicate ''B'' False [] PREDICATE_TYPE ''B'')]"
  define rB where "rB = Clause ''!'' [(2, Predicate ''B'' True [] PREDICATE_TYPE ''B'')]"
  define rX where "rX = Clause ''!'' [(1, Predicate ''X'' True [] PREDICATE_TYPE ''X'')]"
  note defs = p0_def p1_def p2_def rP_def k0_def k1_def k2_def k3_def rB_def rX_def
  note res = resolve_def resolve_pair_def combine_nullary_def name_piece_def Let_def
  note sets = set_of_def set_union_def set_add_def contains_def issubset_def
  have peq:
    "Clause_eq p0 p0" "\<not> Clause_eq p0 p1" "\<not> Clause_eq p0 p2" "\<not> Clause_eq p0 rP"
    "\<not> Clause_eq p1 p0" "Clause_eq p1 p1" "\<not> Clause_eq p1 p2" "\<not> Clause_eq p1 rP"
    "\<not> Clause_eq p2 p0" "\<not> Clause_eq p2 p1" "Clause_eq p2 p2" "\<not> Clause_eq p2 rP"
    "\<not> Clause_eq rP p0" "\<not> Clause_eq rP p1" "\<not> Clause_eq rP p2" "Clause_eq rP rP"
    "\<not> Clause_eq p0 (Clause [] [])" "\<not> Clause_eq p1 (Clause [] [])"
    "\<not> Clause_eq p2 (Clause [] [])" "\<not> Clause_eq rP (Clause [] [])"
    by (simp_all add: Clause_eq_def Clause_eq_loop_def Predicate_eq_def defs)
  have keq:
    "Clause_eq k0 k0" "\<not> Clause_eq k0 k1" "\<not> Clause_eq k0 k2" "\<not> Clause_eq k0 k3"
    "\<not> Clause_eq k1 k0" "Clause_eq k1 k1" "\<not> Clause_eq k1 k2" "\<not> Clause_eq k1 k3"
    "\<not> Clause_eq k2 k0" "\<not> Clause_eq k2 k1" "Clause_eq k2 k2" "\<not> Clause_eq k2 k3"
    "\<not> Clause_eq k3 k0" "\<not> Clause_eq k3 k1" "\<not> Clause_eq k3 k2" "Clause_eq k3 k3"
    "Clause_eq k0 rB" "Clause_eq k0 rX"
    "\<not> Clause_eq k0 (Clause [] [])" "\<not> Clause_eq k1 (Clause [] [])"
    "\<not> Clause_eq k2 (Clause [] [])" "\<not> Clause_eq k3 (Clause [] [])"
    "\<not> Clause_eq rB (Clause [] [])" "\<not> Clause_eq rX (Clause [] [])"
    by (simp_all add: Clause_eq_def Clause_eq_loop_def Predicate_eq_def defs)
  have p01: "resolve 1000 {} {} p0 p1 4 = Inr ([p0, p1], 4)"
    and p02: "resolve 1000 {} {} p0 p2 4 = Inr ([p0, p2], 4)"
    and p12: "resolve 1000 {} {} p1 p2 4 = Inr ([rP, p1, p2], 4)"
    by (simp_all add: res defs)
  have k01: "resolve 1000 {} {} k0 k1 5 = Inr ([k0, k1], 5)"
    and k02: "resolve 1000 {} {} k0 k2 5 = Inr ([k0, k2], 5)"
    and k03: "resolve 1000 {} {} k0 k3 5 = Inr ([k0, k3], 5)"
    and k12: "resolve 1000 {} {} k1 k2 5 = Inr ([rB, k1, k2], 5)"
    and k13: "resolve 1000 {} {} k1 k3 5 = Inr ([rX, k1, k3], 5)"
    and k23: "resolve 1000 {} {} k2 k3 5 = Inr ([k2, k3], 5)"
    by (simp_all add: res defs)
  have pp: "clause_pairs [p0, p1, p2] = [(p0, p1), (p0, p2), (p1, p2)]"
    and kp: "clause_pairs [k0, k1, k2, k3]
      = [(k0, k1), (k0, k2), (k0, k3), (k1, k2), (k1, k3), (k2, k3)]"
    by (simp_all add: clause_pairs_def upt_rec)
  have 1: "resolver_round 1000 {} {} [p0, p1, p2] ([p0, p1, p2], [], 4)
      = Inr (Inr ([p0, p1, p2, rP], [p0, p1, p2, rP], 4))"
    by (simp add: resolver_round_def pp p01 p02 p12 sets peq)
  have 2: "map snd (predicates rP) = map snd (predicates p0)"
    by (simp add: defs)
  have 3: "resolver 1000 (\<lambda>s. s) {} {} [k0, k1, k2, k3] 5 = Some (Inr Yes)"
    unfolding resolver_def
    by (subst resolver_loop.simps)
       (simp add: resolver_round_def kp k01 k02 k03 k12 k13 k23 sets keq)
  from 1 2 k12 3 show ?thesis
    unfolding defs by (intro conjI)
qed

text \<open>
  C3 as amended, for every round of a run, the pairs of clauses being resolved in the
  order the round visits them, and clauses being compared as \<^verbatim>\<open>Clause.__eq__\<close> does, by
  name and position. At the first pair that raises, no earlier pair having produced the
  empty clause, the run ends with that exception. At the first pair whose resolvents hold
  the empty clause (no literal, the empty name), no earlier pair having raised, the run
  ends with \<^verbatim>\<open>no\<close>. When all pairs are resolved and none produces the empty clause: if every
  resolvent has among the known clauses one of the same name, with as many literals and
  \<^verbatim>\<open>==\<close> literals at every index, the run ends with \<^verbatim>\<open>yes\<close>; if some resolvent differs from
  every known clause in the name, in the number of literals or in a literal before the
  last, another round runs, on a clause set that keeps every known clause, adds resolvents
  of the round only, and holds for every resolvent a clause that does not differ from it
  in the name, in the number of literals or in a literal before the last.
\<close>

theorem resolver_round_outcomes:
  assumes "round_state frames iter variables constants clauses nxt0 (current_clauses, new_clause, nxt)"
  shows
   "(clause_pairs (iter current_clauses) = ps1 @ (c1, c2) # ps2
       \<and> round_resolvents frames variables constants ps1 nxt = Inr (rss1, n1)
       \<and> \<not> (\<exists>c \<in> set (concat rss1). empty_clause c)
       \<and> resolve frames variables constants c1 c2 n1 = Inl e
      \<longrightarrow> resolver_loop frames iter variables constants (current_clauses, new_clause, nxt)
            = Some (Inl e))
    \<and> (clause_pairs (iter current_clauses) = ps1 @ (c1, c2) # ps2
       \<and> round_resolvents frames variables constants ps1 nxt = Inr (rss1, n1)
       \<and> \<not> (\<exists>c \<in> set (concat rss1). empty_clause c)
       \<and> resolve frames variables constants c1 c2 n1 = Inr (resolvents, n2)
       \<and> (\<exists>c \<in> set resolvents. empty_clause c)
      \<longrightarrow> resolver_loop frames iter variables constants (current_clauses, new_clause, nxt)
            = Some (Inr No))
    \<and> (round_resolvents frames variables constants (clause_pairs (iter current_clauses)) nxt
         = Inr (rss, nxt')
       \<and> \<not> (\<exists>c \<in> set (concat rss). empty_clause c)
       \<and> (\<forall>r \<in> set (concat rss). \<exists>c \<in> set current_clauses. same_clause c r)
      \<longrightarrow> resolver_loop frames iter variables constants (current_clauses, new_clause, nxt)
            = Some (Inr Yes))
    \<and> (round_resolvents frames variables constants (clause_pairs (iter current_clauses)) nxt
         = Inr (rss, nxt')
       \<and> \<not> (\<exists>c \<in> set (concat rss). empty_clause c)
       \<and> (\<exists>r \<in> set (concat rss). \<forall>c \<in> set current_clauses. differs_before_last c r)
      \<longrightarrow> (\<exists>current_clauses'.
            resolver_loop frames iter variables constants (current_clauses, new_clause, nxt)
              = resolver_loop frames iter variables constants
                  (current_clauses', add_resolvents new_clause rss, nxt')
            \<and> round_state frames iter variables constants clauses nxt0
                  (current_clauses', add_resolvents new_clause rss, nxt')
            \<and> set current_clauses \<subseteq> set current_clauses'
            \<and> set current_clauses' \<subseteq> set current_clauses \<union> set (concat rss)
            \<and> (\<forall>r \<in> set (concat rss).
                  \<exists>c \<in> set current_clauses'. \<not> differs_before_last c r)))"
proof -
  let ?st = "(current_clauses, new_clause, nxt)"
  let ?run = "resolver_loop frames iter variables constants"
  from round_state_invariant [OF assms] have inv: "issubset new_clause current_clauses" by simp
  then have inv': "\<forall>x \<in> set new_clause. contains current_clauses x"
    by (simp add: issubset_def list_all_iff)
  have stop: "resolver_pairs frames variables constants (clause_pairs (iter current_clauses))
        (new_clause, nxt)
      = resolver_pairs frames variables constants ((c1, c2) # ps2)
          (add_resolvents new_clause rss1, n1)"
    if "clause_pairs (iter current_clauses) = ps1 @ (c1, c2) # ps2"
      "round_resolvents frames variables constants ps1 nxt = Inr (rss1, n1)"
      "\<not> (\<exists>c \<in> set (concat rss1). empty_clause c)"
    using that resolver_pairs_prefix [of frames variables constants ps1 nxt rss1 n1
        "(c1, c2) # ps2" new_clause]
    by (simp add: list_ex_has_empty_clause)
  have A: "?run ?st = Some (Inl e)"
    if "clause_pairs (iter current_clauses) = ps1 @ (c1, c2) # ps2"
      "round_resolvents frames variables constants ps1 nxt = Inr (rss1, n1)"
      "\<not> (\<exists>c \<in> set (concat rss1). empty_clause c)"
      "resolve frames variables constants c1 c2 n1 = Inl e"
    using stop [OF that(1-3)] that(4)
    by (subst resolver_loop.simps) (simp add: resolver_round_def)
  have B: "?run ?st = Some (Inr No)"
    if "clause_pairs (iter current_clauses) = ps1 @ (c1, c2) # ps2"
      "round_resolvents frames variables constants ps1 nxt = Inr (rss1, n1)"
      "\<not> (\<exists>c \<in> set (concat rss1). empty_clause c)"
      "resolve frames variables constants c1 c2 n1 = Inr (resolvents, n2)"
      "\<exists>c \<in> set resolvents. empty_clause c"
  proof -
    from that(5) have "contains resolvents (Clause [] [])"
      using has_empty_clause_iff [of resolvents] by (simp add: has_empty_clause_def)
    with stop [OF that(1-3)] that(4) show ?thesis
      by (subst resolver_loop.simps) (simp add: resolver_round_def)
  qed
  have all: "resolver_pairs frames variables constants (clause_pairs (iter current_clauses))
        (new_clause, nxt) = Inr (Inr (add_resolvents new_clause rss, nxt'))"
    if "round_resolvents frames variables constants (clause_pairs (iter current_clauses)) nxt
         = Inr (rss, nxt')" "\<not> (\<exists>c \<in> set (concat rss). empty_clause c)"
    using that resolver_pairs_all [of frames variables constants _ nxt rss nxt' new_clause]
    by (simp add: list_ex_has_empty_clause)
  have Y: "?run ?st = Some (Inr Yes)"
    if rr: "round_resolvents frames variables constants (clause_pairs (iter current_clauses)) nxt
         = Inr (rss, nxt')" and ne: "\<not> (\<exists>c \<in> set (concat rss). empty_clause c)"
      and known: "\<forall>r \<in> set (concat rss). \<exists>c \<in> set current_clauses. same_clause c r"
  proof -
    have "contains (set_of current_clauses) x" if x: "x \<in> set (add_resolvents new_clause rss)" for x
    proof -
      from x set_add_resolvents have "x \<in> set new_clause \<or> x \<in> set (concat rss)" by blast
      then have "contains current_clauses x"
      proof
        assume "x \<in> set new_clause"
        with inv' show ?thesis by blast
      next
        assume "x \<in> set (concat rss)"
        with known obtain c where "c \<in> set current_clauses" "same_clause c x" by blast
        then show ?thesis using same_clause_eq by (auto simp: contains_iff)
      qed
      then show ?thesis by (simp add: contains_set_of)
    qed
    then have "issubset (add_resolvents new_clause rss) (set_of current_clauses)"
      by (simp add: issubset_def list_all_iff)
    with all [OF rr ne] show ?thesis
      by (subst resolver_loop.simps) (simp add: resolver_round_def)
  qed
  have N: "\<exists>current_clauses'.
            ?run ?st = ?run (current_clauses', add_resolvents new_clause rss, nxt')
            \<and> round_state frames iter variables constants clauses nxt0
                  (current_clauses', add_resolvents new_clause rss, nxt')
            \<and> set current_clauses \<subseteq> set current_clauses'
            \<and> set current_clauses' \<subseteq> set current_clauses \<union> set (concat rss)
            \<and> (\<forall>r \<in> set (concat rss).
                  \<exists>c \<in> set current_clauses'. \<not> differs_before_last c r)"
    if rr: "round_resolvents frames variables constants (clause_pairs (iter current_clauses)) nxt
         = Inr (rss, nxt')" and ne: "\<not> (\<exists>c \<in> set (concat rss). empty_clause c)"
      and new: "\<exists>r \<in> set (concat rss). \<forall>c \<in> set current_clauses. differs_before_last c r"
  proof -
    let ?new = "add_resolvents new_clause rss"
    let ?cur = "set_union current_clauses ?new"
    from new obtain r where r: "r \<in> set (concat rss)" "\<not> contains current_clauses r"
      by (auto simp: differs_before_last_iff contains_iff)
    from r(1) have "contains (concat rss) r" by (rule contains_self)
    then have "contains ?new r" by (simp add: contains_add_resolvents)
    with r(2) have "\<not> issubset ?new (set_of current_clauses)"
      by (auto simp: issubset_iff contains_set_of)
    with all [OF rr ne]
    have step: "resolver_round frames variables constants (iter (fst ?st)) ?st
        = Inr (Inr (?cur, ?new, nxt'))"
      by (simp add: resolver_round_def)
    then have 1: "?run ?st = ?run (?cur, ?new, nxt')"
      by (subst resolver_loop.simps) simp
    have 2: "round_state frames iter variables constants clauses nxt0 (?cur, ?new, nxt')"
      using assms step by (rule round_state.later)
    have 3: "set current_clauses \<subseteq> set ?cur" by (rule set_set_union_lower)
    have 4: "set ?cur \<subseteq> set current_clauses \<union> set (concat rss)"
    proof
      fix x assume "x \<in> set ?cur"
      with set_set_union_upper [of current_clauses ?new]
      have "x \<in> set current_clauses \<or> (x \<in> set ?new \<and> \<not> contains current_clauses x)" by auto
      then show "x \<in> set current_clauses \<union> set (concat rss)"
      proof
        assume "x \<in> set current_clauses"
        then show ?thesis by simp
      next
        assume x: "x \<in> set ?new \<and> \<not> contains current_clauses x"
        with inv' have "x \<notin> set new_clause" by blast
        with x set_add_resolvents [of new_clause rss] show ?thesis by auto
      qed
    qed
    have 5: "\<forall>r \<in> set (concat rss). \<exists>c \<in> set ?cur. \<not> differs_before_last c r"
    proof
      fix r assume "r \<in> set (concat rss)"
      then have "contains (concat rss) r" by (rule contains_self)
      then have "contains ?cur r" by (simp add: contains_set_union contains_add_resolvents)
      then show "\<exists>c \<in> set ?cur. \<not> differs_before_last c r"
        by (simp add: contains_iff differs_before_last_iff)
    qed
    from 1 2 3 4 5 show ?thesis by blast
  qed
  from A B Y N show ?thesis by blast
qed

theorem resolver_round_outcomes_witness:
  "resolver 1000 (\<lambda>s. s) {''x''} {''a'', ''b''}
     [Clause ''Q(x,x)'' [(0, Predicate ''Q'' False [Variable ''x'', Variable ''x''] PREDICATE_TYPE ''Q'')],
      Clause ''!Q(a,b)'' [(1, Predicate ''Q'' True [Constant ''a'', Constant ''b''] PREDICATE_TYPE ''Q'')]]
     2 = Some (Inl TypeError)
   \<and> resolver 1000 (\<lambda>s. s) {''x''} {''a'', ''b''}
     [Clause ''P'' [(0, Predicate ''P'' False [] PREDICATE_TYPE ''P'')],
      Clause ''!P'' [(1, Predicate ''P'' True [] PREDICATE_TYPE ''P'')],
      Clause ''Q(x,x)'' [(2, Predicate ''Q'' False [Variable ''x'', Variable ''x''] PREDICATE_TYPE ''Q'')],
      Clause ''!Q(a,b)'' [(3, Predicate ''Q'' True [Constant ''a'', Constant ''b''] PREDICATE_TYPE ''Q'')]]
     4 = Some (Inr No)
   \<and> resolver 1000 (\<lambda>s. s) {} {}
     [Clause ''P'' [(0, Predicate ''P'' False [] PREDICATE_TYPE ''P'')],
      Clause ''Q'' [(1, Predicate ''Q'' False [] PREDICATE_TYPE ''Q'')]] 2 = Some (Inr Yes)
   \<and> (\<exists>current_clauses'.
        resolver 1000 (\<lambda>s. s) {} {}
          [Clause ''P'' [(0, Predicate ''P'' False [] PREDICATE_TYPE ''P'')],
           Clause ''!Q'' [(1, Predicate ''Q'' True [] PREDICATE_TYPE ''Q'')],
           Clause ''Q P'' [(2, Predicate ''Q'' False [] PREDICATE_TYPE ''Q''),
                           (3, Predicate ''P'' False [] PREDICATE_TYPE ''P'')]] 4
        = resolver_loop 1000 (\<lambda>s. s) {} {}
            (current_clauses',
             [Clause ''P'' [(0, Predicate ''P'' False [] PREDICATE_TYPE ''P'')],
              Clause ''!Q'' [(1, Predicate ''Q'' True [] PREDICATE_TYPE ''Q'')],
              Clause ''Q P'' [(2, Predicate ''Q'' False [] PREDICATE_TYPE ''Q''),
                              (3, Predicate ''P'' False [] PREDICATE_TYPE ''P'')],
              Clause ''P '' [(3, Predicate ''P'' False [] PREDICATE_TYPE ''P'')]], 4))"
proof -
  define q0 where "q0 =
    Clause ''Q(x,x)'' [(0, Predicate ''Q'' False [Variable ''x'', Variable ''x''] PREDICATE_TYPE ''Q'')]"
  define q1 where "q1 =
    Clause ''!Q(a,b)'' [(1, Predicate ''Q'' True [Constant ''a'', Constant ''b''] PREDICATE_TYPE ''Q'')]"
  define n0 where "n0 = Clause ''P'' [(0, Predicate ''P'' False [] PREDICATE_TYPE ''P'')]"
  define n1 where "n1 = Clause ''!P'' [(1, Predicate ''P'' True [] PREDICATE_TYPE ''P'')]"
  define n2 where "n2 =
    Clause ''Q(x,x)'' [(2, Predicate ''Q'' False [Variable ''x'', Variable ''x''] PREDICATE_TYPE ''Q'')]"
  define n3 where "n3 =
    Clause ''!Q(a,b)'' [(3, Predicate ''Q'' True [Constant ''a'', Constant ''b''] PREDICATE_TYPE ''Q'')]"
  define y0 where "y0 = Clause ''P'' [(0, Predicate ''P'' False [] PREDICATE_TYPE ''P'')]"
  define y1 where "y1 = Clause ''Q'' [(1, Predicate ''Q'' False [] PREDICATE_TYPE ''Q'')]"
  define p0 where "p0 = Clause ''P'' [(0, Predicate ''P'' False [] PREDICATE_TYPE ''P'')]"
  define p1 where "p1 = Clause ''!Q'' [(1, Predicate ''Q'' True [] PREDICATE_TYPE ''Q'')]"
  define p2 where "p2 = Clause ''Q P'' [(2, Predicate ''Q'' False [] PREDICATE_TYPE ''Q''),
                      (3, Predicate ''P'' False [] PREDICATE_TYPE ''P'')]"
  define rP where "rP = Clause ''P '' [(3, Predicate ''P'' False [] PREDICATE_TYPE ''P'')]"
  note defs = q0_def q1_def n0_def n1_def n2_def n3_def y0_def y1_def p0_def p1_def p2_def rP_def
  note res = resolve_def resolve_pair_def combine_nullary_def name_piece_def Let_def
    unify_predicates_def upt_rec unify.simps unify_variable_eq dict_copy_def dict_set_def
    dict_or_def Variable_def Constant_def Predicate_eq_def has_key_def getFinalForm_numeral
  note sets = set_of_def set_union_def set_add_def contains_def issubset_def
  note ceq = Clause_eq_def Clause_eq_loop_def Predicate_eq_def
  have s: "set_of [q0, q1] = [q0, q1]" "set_of [n0, n1, n2, n3] = [n0, n1, n2, n3]"
    "set_of [y0, y1] = [y0, y1]" "set_of [p0, p1, p2] = [p0, p1, p2]"
    by (simp_all add: sets ceq defs)
  have st: "round_state 1000 (\<lambda>s. s) {''x''} {''a'', ''b''} [q0, q1] 2 ([q0, q1], [], 2)"
    "round_state 1000 (\<lambda>s. s) {''x''} {''a'', ''b''} [n0, n1, n2, n3] 4 ([n0, n1, n2, n3], [], 4)"
    "round_state 1000 (\<lambda>s. s) {} {} [y0, y1] 2 ([y0, y1], [], 2)"
    "round_state 1000 (\<lambda>s. s) {} {} [p0, p1, p2] 4 ([p0, p1, p2], [], 4)"
    using round_state.first [of 1000 "\<lambda>s. s" "{''x''}" "{''a'', ''b''}" "[q0, q1]" 2]
      round_state.first [of 1000 "\<lambda>s. s" "{''x''}" "{''a'', ''b''}" "[n0, n1, n2, n3]" 4]
      round_state.first [of 1000 "\<lambda>s. s" "{}" "{}" "[y0, y1]" 2]
      round_state.first [of 1000 "\<lambda>s. s" "{}" "{}" "[p0, p1, p2]" 4]
    by (simp_all only: s)
  have none: "round_resolvents 1000 V C [] n = Inr ([], n)"
    "\<not> (\<exists>c \<in> set (concat ([] :: Clause list list)). empty_clause c)" for V C n
    by simp_all
  have a1: "clause_pairs ((\<lambda>s. s) [q0, q1]) = [] @ (q0, q1) # []"
    by (simp add: clause_pairs_def upt_rec)
  have a2: "resolve 1000 {''x''} {''a'', ''b''} q0 q1 2 = Inl TypeError"
    by (simp add: res defs)
  from resolver_round_outcomes [OF st(1), where ?ps1.0 = "[]" and ?c1.0 = q0 and ?c2.0 = q1
      and ?ps2.0 = "[]" and ?rss1.0 = "[]" and ?n1.0 = 2 and e = TypeError]
    a1 a2 none
  have A: "resolver_loop 1000 (\<lambda>s. s) {''x''} {''a'', ''b''} ([q0, q1], [], 2) = Some (Inl TypeError)"
    by blast
  have b1: "clause_pairs ((\<lambda>s. s) [n0, n1, n2, n3])
      = [] @ (n0, n1) # [(n0, n2), (n0, n3), (n1, n2), (n1, n3), (n2, n3)]"
    by (simp add: clause_pairs_def upt_rec)
  have b2: "resolve 1000 {''x''} {''a'', ''b''} n0 n1 4 = Inr ([Clause [] [], n0, n1], 4)"
    by (simp add: res defs)
  have b3: "\<exists>c \<in> set [Clause [] [], n0, n1]. empty_clause c"
    by (simp add: empty_clause_def)
  from resolver_round_outcomes [OF st(2), where ?ps1.0 = "[]" and ?c1.0 = n0 and ?c2.0 = n1
      and ?ps2.0 = "[(n0, n2), (n0, n3), (n1, n2), (n1, n3), (n2, n3)]" and ?rss1.0 = "[]"
      and ?n1.0 = 4 and resolvents = "[Clause [] [], n0, n1]" and ?n2.0 = 4]
    b1 b2 b3 none
  have B: "resolver_loop 1000 (\<lambda>s. s) {''x''} {''a'', ''b''} ([n0, n1, n2, n3], [], 4)
      = Some (Inr No)"
    by blast
  have y1: "round_resolvents 1000 {} {} (clause_pairs ((\<lambda>s. s) [y0, y1])) 2 = Inr ([[y0, y1]], 2)"
    by (simp add: clause_pairs_def res defs)
  have y2: "\<not> (\<exists>c \<in> set (concat [[y0, y1]]). empty_clause c)"
    by (simp add: empty_clause_def defs)
  have y3: "\<forall>r \<in> set (concat [[y0, y1]]). \<exists>c \<in> set [y0, y1]. same_clause c r"
    by (simp add: same_clause_def Predicate_eq_def defs)
  from resolver_round_outcomes [OF st(3), where rss = "[[y0, y1]]" and nxt' = 2] y1 y2 y3
  have Y: "resolver_loop 1000 (\<lambda>s. s) {} {} ([y0, y1], [], 2) = Some (Inr Yes)"
    by blast
  have p1: "round_resolvents 1000 {} {} (clause_pairs ((\<lambda>s. s) [p0, p1, p2])) 4
      = Inr ([[p0, p1], [p0, p2], [rP, p1, p2]], 4)"
    by (simp add: clause_pairs_def res defs)
  have p2: "\<not> (\<exists>c \<in> set (concat [[p0, p1], [p0, p2], [rP, p1, p2]]). empty_clause c)"
    by (simp add: empty_clause_def defs)
  have p3: "\<exists>r \<in> set (concat [[p0, p1], [p0, p2], [rP, p1, p2]]).
      \<forall>c \<in> set [p0, p1, p2]. differs_before_last c r"
    by (simp add: differs_before_last_def defs)
  have p4: "add_resolvents [] [[p0, p1], [p0, p2], [rP, p1, p2]] = [p0, p1, p2, rP]"
    by (simp add: add_resolvents_def sets ceq defs)
  from resolver_round_outcomes [OF st(4), where rss = "[[p0, p1], [p0, p2], [rP, p1, p2]]"
      and nxt' = 4] p1 p2 p3
  have "\<exists>current_clauses'.
      resolver_loop 1000 (\<lambda>s. s) {} {} ([p0, p1, p2], [], 4)
      = resolver_loop 1000 (\<lambda>s. s) {} {}
          (current_clauses', add_resolvents [] [[p0, p1], [p0, p2], [rP, p1, p2]], 4)"
    by blast
  then have N: "\<exists>current_clauses'.
      resolver_loop 1000 (\<lambda>s. s) {} {} ([p0, p1, p2], [], 4)
      = resolver_loop 1000 (\<lambda>s. s) {} {} (current_clauses', [p0, p1, p2, rP], 4)"
    by (simp only: p4)
  have RA: "resolver 1000 (\<lambda>s. s) {''x''} {''a'', ''b''} [q0, q1] 2 = Some (Inl TypeError)"
    by (simp only: resolver_def s A)
  have RB: "resolver 1000 (\<lambda>s. s) {''x''} {''a'', ''b''} [n0, n1, n2, n3] 4 = Some (Inr No)"
    by (simp only: resolver_def s B)
  have RY: "resolver 1000 (\<lambda>s. s) {} {} [y0, y1] 2 = Some (Inr Yes)"
    by (simp only: resolver_def s Y)
  have RN: "\<exists>current_clauses'.
      resolver 1000 (\<lambda>s. s) {} {} [p0, p1, p2] 4
      = resolver_loop 1000 (\<lambda>s. s) {} {} (current_clauses', [p0, p1, p2, rP], 4)"
    using N by (simp only: resolver_def s)
  from RA RB RY RN show ?thesis
    unfolding defs by (intro conjI)
qed

end
